theory Spec2Isabelle
  imports Main
begin

section \<open>Python strings\<close>

text \<open>
  A Python \<open>str\<close> is modelled as a \<open>string\<close>, a list of \<open>char\<close>: the code points
  below 256. The functions of this section are the \<open>str\<close> methods the program calls.
\<close>

text \<open>\<open>s.startswith(p)\<close>\<close>

fun startswith :: "string \<Rightarrow> string \<Rightarrow> bool" where
  "startswith s [] = True"
| "startswith [] (p # ps) = False"
| "startswith (c # cs) (p # ps) = (c = p \<and> startswith cs ps)"

text \<open>\<open>s.startswith((p1, p2, ...))\<close>: some prefix of the tuple matches.\<close>

definition startswith_any :: "string \<Rightarrow> string list \<Rightarrow> bool" where
  "startswith_any s ps = list_ex (startswith s) ps"

text \<open>\<open>t in s\<close> for strings: \<open>t\<close> occurs in \<open>s\<close> as a substring.\<close>

fun contains :: "string \<Rightarrow> string \<Rightarrow> bool" where
  "contains [] t = (t = [])"
| "contains (c # cs) t = (startswith (c # cs) t \<or> contains cs t)"

text \<open>
  \<open>s.split(sep)\<close> for a separator of one character: the pieces between the
  separators, never an empty list.
\<close>

fun split_chr :: "char \<Rightarrow> string \<Rightarrow> string list" where
  "split_chr sep [] = [[]]"
| "split_chr sep (c # cs) =
     (if c = sep then [] # split_chr sep cs
      else (case split_chr sep cs of
              [] \<Rightarrow> [[c]]
            | p # ps \<Rightarrow> (c # p) # ps))"

text \<open>\<open>sep.join(xs)\<close>\<close>

fun join :: "string \<Rightarrow> string list \<Rightarrow> string" where
  "join sep [] = []"
| "join sep [x] = x"
| "join sep (x # y # ys) = x @ sep @ join sep (y # ys)"

text \<open>\<open>s.split(sep, 1)\<close>, when \<open>sep\<close> occurs in \<open>s\<close>: the text before the first \<open>sep\<close> and the text after it.\<close>

definition before_chr :: "char \<Rightarrow> string \<Rightarrow> string" where
  "before_chr sep s = takeWhile (\<lambda>c. c \<noteq> sep) s"

definition after_chr :: "char \<Rightarrow> string \<Rightarrow> string" where
  "after_chr sep s = drop 1 (dropWhile (\<lambda>c. c \<noteq> sep) s)"

text \<open>\<open>s.find(c)\<close> and \<open>s.rfind(c)\<close>: \<open>None\<close> stands for \<open>-1\<close>.\<close>

fun find_chr :: "char \<Rightarrow> string \<Rightarrow> nat option" where
  "find_chr x [] = None"
| "find_chr x (c # cs) =
     (if c = x then Some 0 else map_option Suc (find_chr x cs))"

fun rfind_chr :: "char \<Rightarrow> string \<Rightarrow> nat option" where
  "rfind_chr x [] = None"
| "rfind_chr x (c # cs) =
     (case rfind_chr x cs of
        Some i \<Rightarrow> Some (Suc i)
      | None \<Rightarrow> (if c = x then Some 0 else None))"

text \<open>
  \<open>str.isspace\<close> on one character below 256: the ASCII white space, the separators
  \<open>0x1c\<close> to \<open>0x1f\<close>, \<open>0x85\<close> and \<open>0xa0\<close>.
\<close>

definition py_isspace :: "char \<Rightarrow> bool" where
  "py_isspace c =
     (let n = (of_char c :: nat)
      in (9 \<le> n \<and> n \<le> 13) \<or> (28 \<le> n \<and> n \<le> 32) \<or> n = 133 \<or> n = 160)"

text \<open>\<open>s.strip()\<close>, and \<open>s.lstrip(chars)\<close>, \<open>s.rstrip(chars)\<close> for a set of characters.\<close>

definition lstrip_where :: "(char \<Rightarrow> bool) \<Rightarrow> string \<Rightarrow> string" where
  "lstrip_where P s = dropWhile P s"

definition rstrip_where :: "(char \<Rightarrow> bool) \<Rightarrow> string \<Rightarrow> string" where
  "rstrip_where P s = rev (dropWhile P (rev s))"

definition strip :: "string \<Rightarrow> string" where
  "strip s = rstrip_where py_isspace (lstrip_where py_isspace s)"

text \<open>
  \<open>s.lower()\<close> below 256: \<open>A\<close> to \<open>Z\<close>, and \<open>0xc0\<close> to \<open>0xde\<close> without \<open>0xd7\<close>, move up
  by 32.
\<close>

definition lower_chr :: "char \<Rightarrow> char" where
  "lower_chr c =
     (let n = (of_char c :: nat)
      in if (65 \<le> n \<and> n \<le> 90) \<or> (192 \<le> n \<and> n \<le> 222 \<and> n \<noteq> 215)
         then char_of (n + 32) else c)"

definition lower :: "string \<Rightarrow> string" where
  "lower s = map lower_chr s"

text \<open>The last element of a list that \<open>split\<close> returned (\<open>xs[-1]\<close>).\<close>

definition last_piece :: "string list \<Rightarrow> string" where
  "last_piece xs = (case rev xs of [] \<Rightarrow> [] | x # _ \<Rightarrow> x)"

text \<open>The first element of a list that \<open>split\<close> returned (\<open>xs[0]\<close>).\<close>

definition first_piece :: "string list \<Rightarrow> string" where
  "first_piece xs = (case xs of [] \<Rightarrow> [] | x # _ \<Rightarrow> x)"

section \<open>Regular expressions (the patterns of parser.py and normalizer.py)\<close>

text \<open>
  The patterns of the program repeat single characters and character classes only.
  \<open>rmatch\<close> lists, for a pattern and an input, every way to match a prefix of the
  input, in the order in which the backtracking matcher of \<open>re\<close> tries them (a greedy
  repetition tries the longest run first); the first element is the match that \<open>re\<close>
  reports at that position. A result is the list of the groups matched and the rest
  of the input. With \<open>re.IGNORECASE\<close> (\<open>ic\<close>) a letter of a pattern, written in lower
  case, matches both of its cases.
\<close>

datatype atom = Chr char | OneOf "char list" | NoneOf "char list" | Whitespace

fun atom_match :: "bool \<Rightarrow> atom \<Rightarrow> char \<Rightarrow> bool" where
  "atom_match ic (Chr x) c = (c = x \<or> (ic \<and> lower_chr c = x))"
| "atom_match ic (OneOf xs) c = (c \<in> set xs \<or> (ic \<and> lower_chr c \<in> set xs))"
| "atom_match ic (NoneOf xs) c = (\<not> (c \<in> set xs \<or> (ic \<and> lower_chr c \<in> set xs)))"
| "atom_match ic Whitespace c = py_isspace c"

datatype rx =
    Eps
  | Atom atom
  | Seq rx rx
  | Alt rx rx
  | Many atom
  | Many1 atom
  | Opt atom
  | Group nat rx

type_synonym match_state = "(nat \<times> string) list \<times> string"

fun rmatch :: "bool \<Rightarrow> rx \<Rightarrow> match_state \<Rightarrow> match_state list" where
  "rmatch ic Eps st = [st]"
| "rmatch ic (Atom a) (gs, s) =
     (case s of
        [] \<Rightarrow> []
      | c # t \<Rightarrow> if atom_match ic a c then [(gs, t)] else [])"
| "rmatch ic (Seq r1 r2) st = concat (map (rmatch ic r2) (rmatch ic r1 st))"
| "rmatch ic (Alt r1 r2) st = rmatch ic r1 st @ rmatch ic r2 st"
| "rmatch ic (Many a) (gs, s) =
     map (\<lambda>k. (gs, drop k s)) (rev [0..<Suc (length (takeWhile (atom_match ic a) s))])"
| "rmatch ic (Many1 a) (gs, s) =
     map (\<lambda>k. (gs, drop k s)) (rev [1..<Suc (length (takeWhile (atom_match ic a) s))])"
| "rmatch ic (Opt a) (gs, s) =
     (case s of
        [] \<Rightarrow> [(gs, s)]
      | c # t \<Rightarrow> if atom_match ic a c then [(gs, t), (gs, s)] else [(gs, s)])"
| "rmatch ic (Group n r) (gs, s) =
     map (\<lambda>(gs', s'). ((n, take (length s - length s') s) # gs', s')) (rmatch ic r (gs, s))"

text \<open>A literal string as a pattern (what \<open>re.escape\<close> makes of a string).\<close>

fun lit :: "string \<Rightarrow> rx" where
  "lit [] = Eps"
| "lit (c # cs) = Seq (Atom (Chr c)) (lit cs)"

text \<open>The text of group \<open>n\<close> of a match (\<open>match.group(n)\<close>).\<close>

definition group_text :: "nat \<Rightarrow> (nat \<times> string) list \<Rightarrow> string" where
  "group_text n gs = (case map_of gs n of None \<Rightarrow> [] | Some t \<Rightarrow> t)"

text \<open>
  \<open>re.finditer(pattern, s)\<close>: the matches from left to right, none overlapping another;
  each is given by its groups. The patterns of the program match no empty string; a
  position without a match is passed over.
\<close>

function finditer :: "bool \<Rightarrow> rx \<Rightarrow> string \<Rightarrow> (nat \<times> string) list list" where
  "finditer ic r s =
     (if s = [] then []
      else (case rmatch ic r ([], s) of
              [] \<Rightarrow> finditer ic r (tl s)
            | (gs, rest) # _ \<Rightarrow>
                gs # finditer ic r (drop (max 1 (length s - length rest)) s)))"
  by pat_completeness auto
termination
  by (relation "measure (\<lambda>(ic, r, s). length s)") auto

declare finditer.simps [simp del]

text \<open>
  \<open>re.sub(pattern, repl, s)\<close> for a replacement text without escapes: every match, from
  left to right, is replaced.
\<close>

function re_sub :: "bool \<Rightarrow> rx \<Rightarrow> string \<Rightarrow> string \<Rightarrow> string" where
  "re_sub ic r repl s =
     (if s = [] then []
      else (case rmatch ic r ([], s) of
              [] \<Rightarrow> hd s # re_sub ic r repl (tl s)
            | (gs, rest) # _ \<Rightarrow>
                (if length rest < length s
                 then repl @ re_sub ic r repl rest
                 else hd s # re_sub ic r repl (tl s))))"
  by pat_completeness auto
termination
  by (relation "measure (\<lambda>(ic, r, repl, s). length s)") auto

declare re_sub.simps [simp del]

text \<open>The quote class \<open>["\']\<close> and the class \<open>[^"\')]\<close> of the patterns.\<close>

definition quote_chars :: "char list" where
  "quote_chars = [CHR 0x22, CHR 0x27]"

definition url_stop_chars :: "char list" where
  "url_stop_chars = [CHR 0x22, CHR 0x27, CHR '')'']"

text \<open>\<open>url\(["\']?([^"\')]+)["\']?\)\<close>, the pattern of \<open>extract_images\<close>.\<close>

definition url_pattern :: rx where
  "url_pattern =
     Seq (lit ''url('')
       (Seq (Opt (OneOf quote_chars))
          (Seq (Group 1 (Many1 (NoneOf url_stop_chars)))
             (Seq (Opt (OneOf quote_chars)) (lit '')''))))"

text \<open>
  \<open>@font-face\s*\{[^}]*url\(["\']?([^"\')]+)["\']?\)[^}]*\}\<close>, the first pattern of
  \<open>extract_fonts_from_css\<close>. It is used with \<open>re.IGNORECASE | re.DOTALL\<close>; the pattern
  has no dot, so \<open>re.DOTALL\<close> changes nothing.
\<close>

definition font_face_pattern :: rx where
  "font_face_pattern =
     Seq (lit ''@font-face'')
       (Seq (Many Whitespace)
          (Seq (lit ''{'')
             (Seq (Many (NoneOf ''}''))
                (Seq url_pattern
                   (Seq (Many (NoneOf ''}'')) (lit ''}''))))))"

text \<open>
  \<open>url\(["\']?([^"\')]+\.(woff|woff2|ttf|otf|eot))["\']?\)\<close>, the second pattern of
  \<open>extract_fonts_from_css\<close>, used with \<open>re.IGNORECASE\<close>.
\<close>

definition font_file_pattern :: rx where
  "font_file_pattern =
     Seq (lit ''url('')
       (Seq (Opt (OneOf quote_chars))
          (Seq (Group 1
                  (Seq (Many1 (NoneOf url_stop_chars))
                     (Seq (lit ''.'')
                        (Group 2
                           (Alt (lit ''woff'')
                              (Alt (lit ''woff2'')
                                 (Alt (lit ''ttf'') (Alt (lit ''otf'') (lit ''eot'')))))))))
             (Seq (Opt (OneOf quote_chars)) (lit '')''))))"

text \<open>
  \<open>s.replace(old, new)\<close>: every occurrence of \<open>old\<close>, from left to right, none
  overlapping another; an empty \<open>old\<close> matches before every character and at the end.
\<close>

fun replace_nonempty :: "string \<Rightarrow> string \<Rightarrow> nat \<Rightarrow> string \<Rightarrow> string" where
  "replace_nonempty old new skip [] = []"
| "replace_nonempty old new skip (c # cs) =
     (if skip > 0 then replace_nonempty old new (skip - 1) cs
      else if startswith (c # cs) old
      then new @ replace_nonempty old new (length old - 1) cs
      else c # replace_nonempty old new 0 cs)"

definition replace :: "string \<Rightarrow> string \<Rightarrow> string \<Rightarrow> string" where
  "replace s old new =
     (if old = [] then new @ concat (map (\<lambda>c. c # new) s)
      else replace_nonempty old new 0 s)"

section \<open>Paths below the output directory\<close>

text \<open>
  A \<open>pathlib.Path\<close> built by the program is \<open>output_dir / a / b\<close>. \<open>Under ps\<close> is the
  path \<open>output_dir/p1/.../pn\<close>; \<open>Absolute ps\<close> is what pathlib gives when a joined
  segment starts with \<open>/\<close> and so replaces everything before it. Pathlib drops empty
  segments and \<open>.\<close> segments and keeps \<open>..\<close>. The file names that the normalizer passes
  never start with \<open>/\<close> (lemma \<open>choose_filename_ok\<close>), so it builds no absolute path; an
  absolute path is taken to lie outside \<open>output_dir\<close>.
\<close>

datatype path = Under "string list" | Absolute "string list"

definition path_parts :: "string \<Rightarrow> string list" where
  "path_parts s = filter (\<lambda>p. p \<noteq> [] \<and> p \<noteq> ''.'') (split_chr CHR ''/'' s)"

text \<open>\<open>p / s\<close>\<close>

fun joinpath :: "path \<Rightarrow> string \<Rightarrow> path" where
  "joinpath (Under ps) s =
     (if startswith s ''/'' then Absolute (path_parts s) else Under (ps @ path_parts s))"
| "joinpath (Absolute ps) s =
     (if startswith s ''/'' then Absolute (path_parts s) else Absolute (ps @ path_parts s))"

section \<open>The downloader (core/downloader.py)\<close>

text \<open>
  What \<open>session.get\<close> returned: \<open>header_content_type\<close> is
  \<open>response.headers.get('Content-Type', '')\<close>, \<open>response_text\<close> is \<open>response.text\<close> (the decoded body) and
  \<open>response_content\<close> is \<open>response.content\<close> (the raw body).
\<close>

record response =
  header_content_type :: string
  response_text :: string
  response_content :: string

datatype exn_kind = RequestException | OtherException

text \<open>
  One pass through the \<open>try\<close> block of \<open>download_file\<close> ends in one of four ways, decided
  by the file system and the network:
  \<^item> \<open>Mkdir_failed e\<close>: \<open>file_path.parent.mkdir\<close> raised, nothing was requested;
  \<^item> \<open>Get_failed k e\<close>: \<open>session.get\<close> or \<open>raise_for_status\<close> raised an exception of
    kind \<open>k\<close> whose \<open>str\<close> is \<open>e\<close>;
  \<^item> \<open>Write_failed r e\<close>: the response \<open>r\<close> arrived and opening or writing the file
    raised;
  \<^item> \<open>Fetched r\<close>: the response \<open>r\<close> arrived and was written.
\<close>

datatype attempt =
    Mkdir_failed string
  | Get_failed exn_kind string
  | Write_failed response string
  | Fetched response

text \<open>
  The world answers the \<open>n\<close>-th attempt of a run (counted from 0) for a URL and a target
  path; it may answer the same URL differently at different times.
\<close>

type_synonym world = "nat \<Rightarrow> string \<Rightarrow> path \<Rightarrow> attempt"

datatype file_data = Text_data string | Binary_data string

text \<open>
  The fields \<open>downloaded_urls\<close> and \<open>failed_urls\<close> are those of \<open>ResourceDownloader\<close>.
  \<open>attempts\<close> and \<open>written\<close> record the effects of the object on the outside: every pass
  through the \<open>try\<close> block with its outcome, and every file written with its data.
\<close>

record downloader =
  downloaded_urls :: "string set"
  failed_urls :: "(string \<times> string) list"
  attempts :: "(string \<times> path \<times> attempt) list"
  written :: "(path \<times> file_data) list"

definition new_downloader :: downloader where
  "new_downloader =
     \<lparr>downloaded_urls = {}, failed_urls = [], attempts = [], written = []\<rparr>"

text \<open>
  \<open>any(t in content_type for t in ['text', 'html', 'css', 'javascript', 'json'])\<close>
\<close>

definition is_text_type :: "string \<Rightarrow> bool" where
  "is_text_type ct =
     list_ex (contains ct) [''text'', ''html'', ''css'', ''javascript'', ''json'']"

definition body_to_write :: "response \<Rightarrow> file_data" where
  "body_to_write r =
     (if is_text_type (lower (header_content_type r)) then Text_data (response_text r)
      else Binary_data (response_content r))"

text \<open>
  \<open>download_file\<close>: the result and the downloader after the call. Both \<open>except\<close> clauses
  append \<open>(url, str(e))\<close> to \<open>failed_urls\<close> and return \<open>False\<close>.
\<close>

definition download_file :: "world \<Rightarrow> string \<Rightarrow> path \<Rightarrow> downloader \<Rightarrow> bool \<times> downloader" where
  "download_file w url file_path d =
     (if url \<in> downloaded_urls d then (True, d)
      else
        (let a = w (length (attempts d)) url file_path;
             d1 = d\<lparr>attempts := attempts d @ [(url, file_path, a)]\<rparr>
         in case a of
              Mkdir_failed e \<Rightarrow> (False, d1\<lparr>failed_urls := failed_urls d1 @ [(url, e)]\<rparr>)
            | Get_failed k e \<Rightarrow> (False, d1\<lparr>failed_urls := failed_urls d1 @ [(url, e)]\<rparr>)
            | Write_failed r e \<Rightarrow> (False, d1\<lparr>failed_urls := failed_urls d1 @ [(url, e)]\<rparr>)
            | Fetched r \<Rightarrow>
                (True, d1\<lparr>downloaded_urls := insert url (downloaded_urls d1),
                          written := written d1 @ [(file_path, body_to_write r)]\<rparr>)))"

definition get_failed_urls :: "downloader \<Rightarrow> (string \<times> string) list" where
  "get_failed_urls d = failed_urls d"

text \<open>The attempts that reached \<open>session.get\<close>: the network fetches, in order.\<close>

fun reached_get :: "attempt \<Rightarrow> bool" where
  "reached_get (Mkdir_failed e) = False"
| "reached_get (Get_failed k e) = True"
| "reached_get (Write_failed r e) = True"
| "reached_get (Fetched r) = True"

definition fetches :: "downloader \<Rightarrow> string list" where
  "fetches d = map fst (filter (\<lambda>(u, p, a). reached_get a) (attempts d))"

section \<open>URLs (urllib.parse, CPython 3.11)\<close>

text \<open>
  The program parses and joins URLs with \<open>urlparse\<close> and \<open>urljoin\<close>. They are translated
  from the library's source, with two remarks:
  \<^item> \<open>_checknetloc\<close> raises only when the NFKC form of a non-ASCII netloc contains one
    of \<open>/?#@:\<close>; no character below 256 has such a form, so on the strings of this
    development it returns without raising and is left out;
  \<^item> \<open>_check_bracketed_host\<close> calls \<open>ipaddress.ip_address\<close> on a host in square
    brackets. The answer of that library is a parameter \<open>ip\<close> of every function that
    parses a URL: \<open>ip h\<close> says that \<open>h\<close> is accepted as an IPv6 address.
\<close>

datatype py_error = ValueError

record parse_result =
  scheme :: string
  netloc :: string
  upath :: string
  params :: string
  query :: string
  fragment :: string

definition uses_relative :: "string list" where
  "uses_relative = ['''', ''ftp'', ''http'', ''gopher'', ''nntp'', ''imap'',
     ''wais'', ''file'', ''https'', ''shttp'', ''mms'',
     ''prospero'', ''rtsp'', ''rtsps'', ''rtspu'', ''sftp'',
     ''svn'', ''svn+ssh'', ''ws'', ''wss'']"

definition uses_netloc :: "string list" where
  "uses_netloc = ['''', ''ftp'', ''http'', ''gopher'', ''nntp'', ''telnet'',
     ''imap'', ''wais'', ''file'', ''mms'', ''https'', ''shttp'',
     ''snews'', ''prospero'', ''rtsp'', ''rtsps'', ''rtspu'', ''rsync'',
     ''svn'', ''svn+ssh'', ''sftp'', ''nfs'', ''git'', ''git+ssh'',
     ''ws'', ''wss'']"

definition uses_params :: "string list" where
  "uses_params = ['''', ''ftp'', ''hdl'', ''prospero'', ''http'', ''imap'',
     ''https'', ''shttp'', ''rtsp'', ''rtsps'', ''rtspu'', ''sip'',
     ''sips'', ''mms'', ''sftp'', ''tel'']"

definition ascii_alpha :: "char \<Rightarrow> bool" where
  "ascii_alpha c =
     (let n = (of_char c :: nat) in (65 \<le> n \<and> n \<le> 90) \<or> (97 \<le> n \<and> n \<le> 122))"

definition ascii_digit :: "char \<Rightarrow> bool" where
  "ascii_digit c = (let n = (of_char c :: nat) in 48 \<le> n \<and> n \<le> 57)"

text \<open>\<open>scheme_chars\<close>: letters, digits and \<open>+-.\<close>\<close>

definition scheme_char :: "char \<Rightarrow> bool" where
  "scheme_char c =
     (ascii_alpha c \<or> ascii_digit c \<or> c = CHR ''+'' \<or> c = CHR ''-'' \<or> c = CHR ''.'')"

text \<open>\<open>_WHATWG_C0_CONTROL_OR_SPACE\<close> and \<open>_UNSAFE_URL_BYTES_TO_REMOVE\<close>\<close>

definition c0_or_space :: "char \<Rightarrow> bool" where
  "c0_or_space c = ((of_char c :: nat) \<le> 32)"

definition unsafe_byte :: "char \<Rightarrow> bool" where
  "unsafe_byte c = ((of_char c :: nat) = 9 \<or> (of_char c :: nat) = 13 \<or> (of_char c :: nat) = 10)"

text \<open>
  The scheme test of \<open>urlsplit\<close>: a colon at a position \<open>i > 0\<close>, an ASCII letter first
  and only scheme characters before the colon.
\<close>

definition split_scheme :: "string \<Rightarrow> string \<Rightarrow> string \<times> string" where
  "split_scheme dflt url =
     (let pre = before_chr CHR '':'' url
      in if CHR '':'' \<in> set url
            \<and> (case pre of [] \<Rightarrow> False | c # _ \<Rightarrow> ascii_alpha c)
            \<and> list_all scheme_char pre
         then (lower pre, after_chr CHR '':'' url)
         else (dflt, url))"

definition netloc_delim :: "char \<Rightarrow> bool" where
  "netloc_delim c = (c = CHR ''/'' \<or> c = CHR ''?'' \<or> c = CHR ''#'')"

text \<open>\<open>_splitnetloc(url, 2)\<close>\<close>

definition splitnetloc :: "string \<Rightarrow> string \<times> string" where
  "splitnetloc url =
     (let r = drop 2 url
      in (takeWhile (\<lambda>c. \<not> netloc_delim c) r, dropWhile (\<lambda>c. \<not> netloc_delim c) r))"

definition hex_digit :: "char \<Rightarrow> bool" where
  "hex_digit c =
     (let n = (of_char c :: nat)
      in (48 \<le> n \<and> n \<le> 57) \<or> (65 \<le> n \<and> n \<le> 70) \<or> (97 \<le> n \<and> n \<le> 102))"

text \<open>
  \<open>re.match(r"\Av[a-fA-F0-9]+\..+\Z", hostname)\<close> on a host that starts with \<open>v\<close>:
  hexadecimal digits, a dot, and at least one more character, none of them a newline.
\<close>

definition ipvfuture :: "string \<Rightarrow> bool" where
  "ipvfuture h =
     (let r = drop 1 h; hex = takeWhile hex_digit r
      in hex \<noteq> []
         \<and> (case dropWhile hex_digit r of
               [] \<Rightarrow> False
             | d # t \<Rightarrow> d = CHR ''.'' \<and> t \<noteq> [] \<and> list_all (\<lambda>c. (of_char c :: nat) \<noteq> 10) t))"

text \<open>\<open>_check_bracketed_host\<close> returns (\<open>True\<close>) or raises \<open>ValueError\<close> (\<open>False\<close>).\<close>

definition check_bracketed_host :: "(string \<Rightarrow> bool) \<Rightarrow> string \<Rightarrow> bool" where
  "check_bracketed_host ip h = (if startswith h ''v'' then ipvfuture h else ip h)"

text \<open>The checks of \<open>urlsplit\<close> on the netloc that raise \<open>ValueError\<close>.\<close>

definition netloc_raises :: "(string \<Rightarrow> bool) \<Rightarrow> string \<Rightarrow> bool" where
  "netloc_raises ip nl =
     (let ob = CHR ''['' \<in> set nl; cb = CHR '']'' \<in> set nl
      in if (ob \<and> \<not> cb) \<or> (cb \<and> \<not> ob) then True
         else if ob \<and> cb
         then \<not> check_bracketed_host ip (before_chr CHR '']'' (after_chr CHR ''['' nl))
         else False)"

text \<open>\<open>urlsplit(url, scheme)\<close>; the field \<open>params\<close> of its result is empty.\<close>

definition urlsplit :: "(string \<Rightarrow> bool) \<Rightarrow> string \<Rightarrow> string \<Rightarrow> py_error + parse_result" where
  "urlsplit ip url0 scheme0 =
     (let url1 = filter (\<lambda>c. \<not> unsafe_byte c) (lstrip_where c0_or_space url0);
          sch0 = filter (\<lambda>c. \<not> unsafe_byte c)
                   (rstrip_where c0_or_space (lstrip_where c0_or_space scheme0));
          (sch, url2) = split_scheme sch0 url1;
          (nl, url3) = (if take 2 url2 = ''//'' then splitnetloc url2 else ([], url2))
      in if netloc_raises ip nl then Inl ValueError
         else
           (let (url4, frag) =
                  (if CHR ''#'' \<in> set url3
                   then (before_chr CHR ''#'' url3, after_chr CHR ''#'' url3)
                   else (url3, []));
                (url5, qry) =
                  (if CHR ''?'' \<in> set url4
                   then (before_chr CHR ''?'' url4, after_chr CHR ''?'' url4)
                   else (url4, []))
            in Inr \<lparr>scheme = sch, netloc = nl, upath = url5, params = [],
                     query = qry, fragment = frag\<rparr>))"

text \<open>
  \<open>_splitparams(url)\<close>, called when \<open>;\<close> occurs in \<open>url\<close>: the first \<open>;\<close> after the last
  \<open>/\<close> splits, and without such a \<open>;\<close> there are no parameters.
\<close>

definition splitparams :: "string \<Rightarrow> string \<times> string" where
  "splitparams url =
     (let i = (case rfind_chr CHR ''/'' url of
                 None \<Rightarrow> find_chr CHR '';'' url
               | Some k \<Rightarrow> map_option (\<lambda>j. j + k) (find_chr CHR '';'' (drop k url)))
      in case i of
           None \<Rightarrow> (url, [])
         | Some j \<Rightarrow> (take j url, drop (Suc j) url))"

definition urlparse :: "(string \<Rightarrow> bool) \<Rightarrow> string \<Rightarrow> string \<Rightarrow> py_error + parse_result" where
  "urlparse ip url scheme0 =
     (case urlsplit ip url scheme0 of
        Inl e \<Rightarrow> Inl e
      | Inr r \<Rightarrow>
          (if scheme r \<in> set uses_params \<and> CHR '';'' \<in> set (upath r)
           then (let (u, p) = splitparams (upath r) in Inr (r\<lparr>upath := u, params := p\<rparr>))
           else Inr r))"

definition urlunsplit :: "parse_result \<Rightarrow> string" where
  "urlunsplit r =
     (let url1 =
            (if netloc r \<noteq> [] \<or> (scheme r \<noteq> [] \<and> scheme r \<in> set uses_netloc)
                \<or> take 2 (upath r) = ''//''
             then ''//'' @ netloc r
                  @ (if upath r \<noteq> [] \<and> take 1 (upath r) \<noteq> ''/''
                     then ''/'' @ upath r else upath r)
             else upath r);
          url2 = (if scheme r \<noteq> [] then scheme r @ '':'' @ url1 else url1);
          url3 = (if query r \<noteq> [] then url2 @ ''?'' @ query r else url2)
      in if fragment r \<noteq> [] then url3 @ ''#'' @ fragment r else url3)"

definition urlunparse :: "parse_result \<Rightarrow> string" where
  "urlunparse r =
     urlunsplit (if params r \<noteq> [] then r\<lparr>upath := upath r @ '';'' @ params r\<rparr> else r)"

text \<open>\<open>segments[1:-1] = filter(None, segments[1:-1])\<close>\<close>

definition drop_inner_empty :: "string list \<Rightarrow> string list" where
  "drop_inner_empty segs =
     (case segs of
        [] \<Rightarrow> []
      | [x] \<Rightarrow> [x]
      | x # y # ys \<Rightarrow> x # filter (\<lambda>s. s \<noteq> []) (butlast (y # ys)) @ [last (y # ys)])"

text \<open>The loop of \<open>urljoin\<close> over the segments; \<open>pop\<close> on an empty list is ignored.\<close>

fun resolve_segments :: "string list \<Rightarrow> string list \<Rightarrow> string list" where
  "resolve_segments rp [] = rp"
| "resolve_segments rp (seg # segs) =
     (if seg = ''..'' then resolve_segments (butlast rp) segs
      else if seg = ''.'' then resolve_segments rp segs
      else resolve_segments (rp @ [seg]) segs)"

definition resolve_path :: "string \<Rightarrow> string \<Rightarrow> string" where
  "resolve_path bpath p =
     (let bp = split_chr CHR ''/'' bpath;
          base_parts = (if last_piece bp \<noteq> [] then butlast bp else bp);
          segments = (if take 1 p = ''/'' then split_chr CHR ''/'' p
                      else drop_inner_empty (base_parts @ split_chr CHR ''/'' p));
          rp = resolve_segments [] segments;
          rp1 = (if last_piece segments = ''.'' \<or> last_piece segments = ''..''
                 then rp @ [[]] else rp);
          j = join ''/'' rp1
      in if j = [] then ''/'' else j)"

definition urljoin :: "(string \<Rightarrow> bool) \<Rightarrow> string \<Rightarrow> string \<Rightarrow> py_error + string" where
  "urljoin ip base url =
     (if base = [] then Inr url
      else if url = [] then Inr base
      else
        (case urlparse ip base [] of
           Inl e \<Rightarrow> Inl e
         | Inr b \<Rightarrow>
             (case urlparse ip url (scheme b) of
                Inl e \<Rightarrow> Inl e
              | Inr u \<Rightarrow>
                  (if scheme u \<noteq> scheme b \<or> scheme u \<notin> set uses_relative then Inr url
                   else if scheme u \<in> set uses_netloc \<and> netloc u \<noteq> []
                   then Inr (urlunparse u)
                   else
                     (let nl = (if scheme u \<in> set uses_netloc then netloc b else netloc u)
                      in if upath u = [] \<and> params u = []
                         then Inr (urlunparse
                                (u\<lparr>netloc := nl, upath := upath b, params := params b,
                                   query := (if query u = [] then query b else query u)\<rparr>))
                         else Inr (urlunparse
                                (u\<lparr>netloc := nl,
                                   upath := resolve_path (upath b) (upath u)\<rparr>)))))))"

section \<open>Utilities (core/utils.py)\<close>

text \<open>\<open>resolve_url(url, base_url)\<close>\<close>

definition resolve_url :: "(string \<Rightarrow> bool) \<Rightarrow> string \<Rightarrow> string \<Rightarrow> py_error + string" where
  "resolve_url ip url base_url =
     (if startswith_any url [''http://'', ''https://''] then Inr url
      else if startswith url ''//''
      then (case urlparse ip base_url [] of
              Inl e \<Rightarrow> Inl e
            | Inr b \<Rightarrow> Inr (scheme b @ '':'' @ url))
      else urljoin ip base_url url)"

text \<open>\<open>is_same_domain(url, domain)\<close>: the bare \<open>except\<close> turns every exception into \<open>False\<close>.\<close>

definition is_same_domain :: "(string \<Rightarrow> bool) \<Rightarrow> string \<Rightarrow> string \<Rightarrow> bool" where
  "is_same_domain ip url domain =
     (case urlparse ip url [] of
        Inl e \<Rightarrow> False
      | Inr parsed \<Rightarrow> netloc parsed = domain \<or> netloc parsed = [])"

text \<open>\<open>get_file_extension(url)\<close>\<close>

definition get_file_extension :: "(string \<Rightarrow> bool) \<Rightarrow> string \<Rightarrow> py_error + string" where
  "get_file_extension ip url =
     (case urlparse ip url [] of
        Inl e \<Rightarrow> Inl e
      | Inr parsed \<Rightarrow>
          (if CHR ''.'' \<in> set (upath parsed)
           then Inr (lower (last_piece (split_chr CHR ''.'' (upath parsed))))
           else Inr []))"

text \<open>The character class \<open>[<>:"|?*]\<close> of \<open>get_safe_filename\<close>.\<close>

definition unsafe_path_chr :: "char \<Rightarrow> bool" where
  "unsafe_path_chr c =
     (c = CHR ''<'' \<or> c = CHR ''>'' \<or> c = CHR '':'' \<or> c = CHR 0x22 \<or> c = CHR ''|''
      \<or> c = CHR ''?'' \<or> c = CHR ''*'')"

text \<open>The character class \<open>[<>:"|?*\x00-\x1f]\<close> of \<open>sanitize_filename\<close>.\<close>

definition unsafe_name_chr :: "char \<Rightarrow> bool" where
  "unsafe_name_chr c = (unsafe_path_chr c \<or> (of_char c :: nat) \<le> 31)"

text \<open>\<open>re.sub(cls, '_', s)\<close> for a character class \<open>cls\<close>\<close>

definition sub_class :: "(char \<Rightarrow> bool) \<Rightarrow> string \<Rightarrow> string" where
  "sub_class cls s = map (\<lambda>c. if cls c then CHR ''_'' else c) s"

text \<open>\<open>os.path.basename(p)\<close>: what follows the last \<open>/\<close>\<close>

definition basename :: "string \<Rightarrow> string" where
  "basename p = last_piece (split_chr CHR ''/'' p)"

text \<open>\<open>get_safe_filename(url_path)\<close> with the default name \<open>index.html\<close>\<close>

definition get_safe_filename :: "string \<Rightarrow> string" where
  "get_safe_filename url_path =
     (if url_path = [] \<or> url_path = ''/'' then ''index.html''
      else
        (let p1 = lstrip_where (\<lambda>c. c = CHR ''/'') url_path;
             p2 = first_piece (split_chr CHR ''#'' (first_piece (split_chr CHR ''?'' p1)));
             p3 = sub_class unsafe_path_chr p2;
             p4 = (if p3 \<noteq> [] \<and> last p3 = CHR ''/'' then p3 @ ''index.html'' else p3)
         in if CHR ''.'' \<notin> set (basename p4) then p4 @ ''.html'' else p4))"

text \<open>
  \<open>os.path.splitext(p)\<close>: the extension starts at the last dot, when that dot comes
  after the last \<open>/\<close> and after a character of the file name that is not a dot.
\<close>

definition splitext :: "string \<Rightarrow> string \<times> string" where
  "splitext p =
     (case rfind_chr CHR ''.'' p of
        None \<Rightarrow> (p, [])
      | Some dot \<Rightarrow>
          (let start = (case rfind_chr CHR ''/'' p of None \<Rightarrow> 0 | Some k \<Rightarrow> Suc k)
           in if start \<le> dot \<and> list_ex (\<lambda>c. c \<noteq> CHR ''.'') (take (dot - start) (drop start p))
              then (take dot p, drop dot p)
              else (p, [])))"

text \<open>\<open>sanitize_filename(filename)\<close>\<close>

definition sanitize_filename :: "string \<Rightarrow> string" where
  "sanitize_filename filename =
     (let f1 = strip (sub_class unsafe_name_chr filename);
          f2 = (if f1 = [] then ''file'' else f1)
      in if length f2 > 255
         then (let (name, ext) = splitext f2 in take 250 name @ ext)
         else f2)"

section \<open>The downloader, continued (core/downloader.py)\<close>

text \<open>
  \<open>download_resource(url, output_dir, subfolder, filename)\<close>. An empty \<open>filename\<close>
  stands for both \<open>None\<close> and \<open>''\<close> (the test is \<open>not filename\<close>), and then
  \<open>urlparse(url)\<close> may raise. The path is computed first, then \<open>download_file\<close> is
  called and its result dropped.
\<close>

definition resource_filename :: "(string \<Rightarrow> bool) \<Rightarrow> string \<Rightarrow> string \<Rightarrow> py_error + string" where
  "resource_filename ip url filename =
     (if filename = []
      then (case urlparse ip url [] of
              Inl e \<Rightarrow> Inl e
            | Inr parsed \<Rightarrow> Inr (sanitize_filename (get_safe_filename (upath parsed))))
      else Inr filename)"

definition resource_path :: "string \<Rightarrow> string \<Rightarrow> path" where
  "resource_path subfolder filename =
     (if subfolder \<noteq> [] then joinpath (joinpath (Under []) subfolder) filename
      else joinpath (Under []) filename)"

definition download_resource ::
  "(string \<Rightarrow> bool) \<Rightarrow> world \<Rightarrow> string \<Rightarrow> string \<Rightarrow> string \<Rightarrow> downloader
     \<Rightarrow> py_error + (path \<times> downloader)" where
  "download_resource ip w url subfolder filename d =
     (case resource_filename ip url filename of
        Inl e \<Rightarrow> Inl e
      | Inr name \<Rightarrow>
          (let file_path = resource_path subfolder name
           in Inr (file_path, snd (download_file w url file_path d))))"

section \<open>The parsed document (BeautifulSoup)\<close>

text \<open>
  The program reads the document through \<open>find_all\<close>, which visits the elements in
  document order, and changes it by setting an attribute of an element, by
  \<open>decompose\<close> on \<open>link\<close>, \<open>script\<close> and \<open>style\<close> elements (which have no element
  children) and by appending one element. The document is therefore modelled as the
  list of its elements in document order; an element is known by its position.
  Attribute values are strings; \<open>rel\<close> is a list of tokens in BeautifulSoup, here the
  tokens are the pieces of the string between white space.
\<close>

record element =
  tag_name :: string
  attrs :: "(string \<times> string) list"
  tag_string :: "string option"

type_synonym soup = "element list"

definition get_attr :: "element \<Rightarrow> string \<Rightarrow> string option" where
  "get_attr e k = map_of (attrs e) k"

text \<open>\<open>tag[k] = v\<close>: a present key keeps its place, a new key goes last.\<close>

fun set_item :: "string \<Rightarrow> string \<Rightarrow> (string \<times> string) list \<Rightarrow> (string \<times> string) list" where
  "set_item k v [] = [(k, v)]"
| "set_item k v ((k', v') # kvs) =
     (if k' = k then (k, v) # kvs else (k', v') # set_item k v kvs)"

definition set_attr :: "string \<Rightarrow> string \<Rightarrow> element \<Rightarrow> element" where
  "set_attr k v e = e\<lparr>attrs := set_item k v (attrs e)\<rparr>"

text \<open>The pieces of a string between runs of white space.\<close>

fun split_ws_acc :: "string \<Rightarrow> string \<Rightarrow> string list" where
  "split_ws_acc cur [] = (if cur = [] then [] else [cur])"
| "split_ws_acc cur (c # cs) =
     (if py_isspace c
      then (if cur = [] then split_ws_acc [] cs else cur # split_ws_acc [] cs)
      else split_ws_acc (cur @ [c]) cs)"

definition split_ws :: "string \<Rightarrow> string list" where
  "split_ws s = split_ws_acc [] s"

text \<open>The filter of \<open>find_all('link', rel='stylesheet', href=True)\<close>.\<close>

definition is_stylesheet_link :: "element \<Rightarrow> bool" where
  "is_stylesheet_link e =
     (tag_name e = ''link''
      \<and> (case get_attr e ''rel'' of
            None \<Rightarrow> False
          | Some r \<Rightarrow> ''stylesheet'' \<in> set (split_ws r))
      \<and> get_attr e ''href'' \<noteq> None)"

text \<open>The filters of \<open>find_all('script', src=True)\<close> and \<open>find_all('img', src=True)\<close>.\<close>

definition is_script_src :: "element \<Rightarrow> bool" where
  "is_script_src e = (tag_name e = ''script'' \<and> get_attr e ''src'' \<noteq> None)"

definition is_img_src :: "element \<Rightarrow> bool" where
  "is_img_src e = (tag_name e = ''img'' \<and> get_attr e ''src'' \<noteq> None)"

text \<open>The value of an attribute that the filter has found present.\<close>

definition attr_of :: "element \<Rightarrow> string \<Rightarrow> string" where
  "attr_of e k = (case get_attr e k of None \<Rightarrow> [] | Some v \<Rightarrow> v)"

section \<open>The parser (core/parser.py)\<close>

text \<open>
  The loop shared by \<open>extract_external_css\<close> and \<open>extract_external_js\<close> and the first
  loop of \<open>extract_images\<close>: every element that passes the filter has its attribute
  resolved (which may raise), and is kept with its position when the URL is of the
  site's domain.
\<close>

fun extract_refs ::
  "(string \<Rightarrow> bool) \<Rightarrow> string \<Rightarrow> string \<Rightarrow> (element \<Rightarrow> bool) \<Rightarrow> string
     \<Rightarrow> (nat \<times> element) list \<Rightarrow> py_error + (string \<times> nat) list" where
  "extract_refs ip base_url domain flt attr [] = Inr []"
| "extract_refs ip base_url domain flt attr ((i, e) # rest) =
     (if flt e
      then (case resolve_url ip (attr_of e attr) base_url of
              Inl err \<Rightarrow> Inl err
            | Inr url \<Rightarrow>
                (case extract_refs ip base_url domain flt attr rest of
                   Inl err \<Rightarrow> Inl err
                 | Inr found \<Rightarrow>
                     Inr (if is_same_domain ip url domain then (url, i) # found else found)))
      else extract_refs ip base_url domain flt attr rest)"

definition extract_external_css ::
  "(string \<Rightarrow> bool) \<Rightarrow> string \<Rightarrow> string \<Rightarrow> soup \<Rightarrow> py_error + (string \<times> nat) list" where
  "extract_external_css ip base_url domain doc =
     extract_refs ip base_url domain is_stylesheet_link ''href'' (enumerate 0 doc)"

definition extract_external_js ::
  "(string \<Rightarrow> bool) \<Rightarrow> string \<Rightarrow> string \<Rightarrow> soup \<Rightarrow> py_error + (string \<times> nat) list" where
  "extract_external_js ip base_url domain doc =
     extract_refs ip base_url domain is_script_src ''src'' (enumerate 0 doc)"

section \<open>The normalizer (core/normalizer.py)\<close>

text \<open>\<open>str(n)\<close> for a number that is not negative.\<close>

definition digit_chr :: "nat \<Rightarrow> char" where
  "digit_chr n = char_of (48 + n)"

function str_nat :: "nat \<Rightarrow> string" where
  "str_nat n = (if n < 10 then [digit_chr n] else str_nat (n div 10) @ [digit_chr (n mod 10)])"
  by pat_completeness auto
termination
  by (relation "measure id") auto

declare str_nat.simps [simp del]

text \<open>
  \<open>str(file_path.relative_to(output_dir)).replace('\\', '/')\<close>: a path that is not below
  \<open>output_dir\<close> raises \<open>ValueError\<close>; the path without parts prints as a dot.
\<close>

definition relative_str :: "path \<Rightarrow> py_error + string" where
  "relative_str p =
     (case p of
        Absolute ps \<Rightarrow> Inl ValueError
      | Under ps \<Rightarrow>
          Inr (map (\<lambda>c. if c = CHR 0x5C then CHR ''/'' else c)
                 (if ps = [] then ''.'' else join ''/'' ps)))"

text \<open>
  The file name that \<open>_process_external_css\<close> and \<open>_process_external_js\<close> choose for
  the reference at position \<open>idx\<close> of the extracted list: the default carries the
  position, and the last piece of the attribute replaces it when it has a dot.
\<close>

definition numbered_name :: "string \<Rightarrow> nat \<Rightarrow> string \<Rightarrow> string" where
  "numbered_name stem idx ext = stem @ str_nat (idx + 1) @ ext"

definition choose_filename :: "string \<Rightarrow> string \<Rightarrow> string" where
  "choose_filename dflt raw =
     (let piece = last_piece (split_chr CHR ''/'' raw)
      in if CHR ''.'' \<in> set piece then sanitize_filename piece else dflt)"

text \<open>
  One turn of the loop of \<open>_process_external_css\<close> (\<open>subfolder = css\<close>, \<open>attr = href\<close>,
  names \<open>main_N.css\<close>) and of \<open>_process_external_js\<close> (\<open>js\<close>, \<open>src\<close>, \<open>main_N.js\<close>): the
  resource is downloaded and the attribute of the element is set to the local path.
  The references come from the extraction, so \<open>pos\<close> is a position of the document and
  the element there has the attribute (the test \<open>'href' in tag.attrs\<close> holds).
\<close>

definition process_ref ::
  "(string \<Rightarrow> bool) \<Rightarrow> world \<Rightarrow> string \<Rightarrow> string \<Rightarrow> string \<Rightarrow> nat \<Rightarrow> string \<times> nat
     \<Rightarrow> soup \<times> downloader \<Rightarrow> py_error + (soup \<times> downloader)" where
  "process_ref ip w subfolder attr ext idx ref st =
     (case ref of (url, pos) \<Rightarrow>
      case st of (doc, d) \<Rightarrow>
        (let tag = doc ! pos;
             filename = choose_filename (numbered_name ''main_'' idx ext) (attr_of tag attr)
         in case download_resource ip w url subfolder filename d of
              Inl e \<Rightarrow> Inl e
            | Inr (file_path, d') \<Rightarrow>
                (case relative_str file_path of
                   Inl e \<Rightarrow> Inl e
                 | Inr rel \<Rightarrow> Inr (doc[pos := set_attr attr rel tag], d'))))"

fun process_refs ::
  "(string \<Rightarrow> bool) \<Rightarrow> world \<Rightarrow> string \<Rightarrow> string \<Rightarrow> string \<Rightarrow> nat \<Rightarrow> (string \<times> nat) list
     \<Rightarrow> soup \<times> downloader \<Rightarrow> py_error + (soup \<times> downloader)" where
  "process_refs ip w subfolder attr ext idx [] st = Inr st"
| "process_refs ip w subfolder attr ext idx (ref # refs) st =
     (case process_ref ip w subfolder attr ext idx ref st of
        Inl e \<Rightarrow> Inl e
      | Inr st' \<Rightarrow> process_refs ip w subfolder attr ext (Suc idx) refs st')"

definition process_external_css ::
  "(string \<Rightarrow> bool) \<Rightarrow> world \<Rightarrow> string \<Rightarrow> string \<Rightarrow> soup \<times> downloader
     \<Rightarrow> py_error + (soup \<times> downloader)" where
  "process_external_css ip w base_url domain st =
     (case extract_external_css ip base_url domain (fst st) of
        Inl e \<Rightarrow> Inl e
      | Inr css_files \<Rightarrow> process_refs ip w ''css'' ''href'' ''.css'' 0 css_files st)"

definition process_external_js ::
  "(string \<Rightarrow> bool) \<Rightarrow> world \<Rightarrow> string \<Rightarrow> string \<Rightarrow> soup \<times> downloader
     \<Rightarrow> py_error + (soup \<times> downloader)" where
  "process_external_js ip w base_url domain st =
     (case extract_external_js ip base_url domain (fst st) of
        Inl e \<Rightarrow> Inl e
      | Inr js_files \<Rightarrow> process_refs ip w ''js'' ''src'' ''.js'' 0 js_files st)"

text \<open>
  \<open>_rewrite_paths\<close>: three loops, over the stylesheet links, the scripts and the
  images of the document. A link or a script whose URL starts with \<open>http\<close> and is not
  of the site's domain is removed (\<open>decompose\<close>); such an image gets the placeholder.
\<close>

definition foreign_http :: "(string \<Rightarrow> bool) \<Rightarrow> string \<Rightarrow> string \<Rightarrow> bool" where
  "foreign_http ip domain u = (startswith u ''http'' \<and> \<not> is_same_domain ip u domain)"

definition rewrite_paths :: "(string \<Rightarrow> bool) \<Rightarrow> string \<Rightarrow> soup \<Rightarrow> soup" where
  "rewrite_paths ip domain doc =
     (let doc1 = filter (\<lambda>e. \<not> (is_stylesheet_link e
                                  \<and> foreign_http ip domain (attr_of e ''href''))) doc;
          doc2 = filter (\<lambda>e. \<not> (is_script_src e
                                  \<and> foreign_http ip domain (attr_of e ''src''))) doc1
      in map (\<lambda>e. if is_img_src e \<and> foreign_http ip domain (attr_of e ''src'')
                   then set_attr ''src'' ''images/placeholder.png'' e else e) doc2)"

section \<open>Images and fonts (core/parser.py, core/normalizer.py)\<close>

text \<open>
  The second loop of \<open>extract_images\<close>: every \<open>url(...)\<close> of the \<open>style\<close> attribute of an
  element is resolved (which may raise) and kept, with the position of the element,
  when it is of the site's domain.
\<close>

fun urls_to_refs ::
  "(string \<Rightarrow> bool) \<Rightarrow> string \<Rightarrow> string \<Rightarrow> nat \<Rightarrow> string list
     \<Rightarrow> py_error + (string \<times> nat) list" where
  "urls_to_refs ip base_url domain pos [] = Inr []"
| "urls_to_refs ip base_url domain pos (u # us) =
     (case resolve_url ip u base_url of
        Inl err \<Rightarrow> Inl err
      | Inr abs_url \<Rightarrow>
          (case urls_to_refs ip base_url domain pos us of
             Inl err \<Rightarrow> Inl err
           | Inr found \<Rightarrow>
               Inr (if is_same_domain ip abs_url domain then (abs_url, pos) # found
                    else found)))"

fun style_refs ::
  "(string \<Rightarrow> bool) \<Rightarrow> string \<Rightarrow> string \<Rightarrow> (nat \<times> element) list
     \<Rightarrow> py_error + (string \<times> nat) list" where
  "style_refs ip base_url domain [] = Inr []"
| "style_refs ip base_url domain ((i, e) # rest) =
     (case get_attr e ''style'' of
        None \<Rightarrow> style_refs ip base_url domain rest
      | Some style_content \<Rightarrow>
          (case urls_to_refs ip base_url domain i
                  (map (group_text 1) (finditer False url_pattern style_content)) of
             Inl err \<Rightarrow> Inl err
           | Inr here \<Rightarrow>
               (case style_refs ip base_url domain rest of
                  Inl err \<Rightarrow> Inl err
                | Inr found \<Rightarrow> Inr (here @ found))))"

definition extract_images ::
  "(string \<Rightarrow> bool) \<Rightarrow> string \<Rightarrow> string \<Rightarrow> soup \<Rightarrow> py_error + (string \<times> nat) list" where
  "extract_images ip base_url domain doc =
     (case extract_refs ip base_url domain is_img_src ''src'' (enumerate 0 doc) of
        Inl err \<Rightarrow> Inl err
      | Inr images \<Rightarrow>
          (case style_refs ip base_url domain (enumerate 0 doc) of
             Inl err \<Rightarrow> Inl err
           | Inr from_styles \<Rightarrow> Inr (images @ from_styles)))"

text \<open>\<open>rf'url\(["\']?{re.escape(url)}["\']?\)'\<close>, the pattern of \<open>_process_images\<close>.\<close>

definition url_of_pattern :: "string \<Rightarrow> rx" where
  "url_of_pattern url =
     Seq (lit ''url('')
       (Seq (Opt (OneOf quote_chars))
          (Seq (lit url) (Seq (Opt (OneOf quote_chars)) (lit '')''))))"

text \<open>
  One turn of the loop of \<open>_process_images\<close>. The file name is chosen as for a
  stylesheet, from the \<open>src\<close> of the element when it has one. An \<open>img\<close> gets the local
  path as \<open>src\<close>; another element with a \<open>style\<close> has the \<open>url(...)\<close> of the absolute URL
  replaced in it.
\<close>

definition process_image ::
  "(string \<Rightarrow> bool) \<Rightarrow> world \<Rightarrow> nat \<Rightarrow> string \<times> nat \<Rightarrow> soup \<times> downloader
     \<Rightarrow> py_error + (soup \<times> downloader)" where
  "process_image ip w idx ref st =
     (case ref of (url, pos) \<Rightarrow>
      case st of (doc, d) \<Rightarrow>
        (let tag = doc ! pos
         in case get_file_extension ip url of
              Inl e \<Rightarrow> Inl e
            | Inr ext0 \<Rightarrow>
                (let ext = (if ext0 = [] then ''jpg'' else ext0);
                     dflt = ''image_'' @ str_nat (idx + 1) @ ''.'' @ ext;
                     filename = (case get_attr tag ''src'' of
                                   None \<Rightarrow> dflt
                                 | Some src \<Rightarrow> choose_filename dflt src)
                 in case download_resource ip w url ''images'' filename d of
                      Inl e \<Rightarrow> Inl e
                    | Inr (file_path, d') \<Rightarrow>
                        (if tag_name tag = ''img''
                         then (case relative_str file_path of
                                 Inl e \<Rightarrow> Inl e
                               | Inr rel \<Rightarrow> Inr (doc[pos := set_attr ''src'' rel tag], d'))
                         else if get_attr tag ''style'' \<noteq> None
                         then (case relative_str file_path of
                                 Inl e \<Rightarrow> Inl e
                               | Inr rel \<Rightarrow>
                                   Inr (doc[pos := set_attr ''style''
                                          (re_sub False (url_of_pattern url)
                                             (''url('' @ rel @ '')'') (attr_of tag ''style''))
                                          tag], d'))
                         else Inr (doc, d')))))"

fun process_image_refs ::
  "(string \<Rightarrow> bool) \<Rightarrow> world \<Rightarrow> nat \<Rightarrow> (string \<times> nat) list \<Rightarrow> soup \<times> downloader
     \<Rightarrow> py_error + (soup \<times> downloader)" where
  "process_image_refs ip w idx [] st = Inr st"
| "process_image_refs ip w idx (ref # refs) st =
     (case process_image ip w idx ref st of
        Inl e \<Rightarrow> Inl e
      | Inr st' \<Rightarrow> process_image_refs ip w (Suc idx) refs st')"

definition process_images ::
  "(string \<Rightarrow> bool) \<Rightarrow> world \<Rightarrow> string \<Rightarrow> string \<Rightarrow> soup \<times> downloader
     \<Rightarrow> py_error + (soup \<times> downloader)" where
  "process_images ip w base_url domain st =
     (case extract_images ip base_url domain (fst st) of
        Inl e \<Rightarrow> Inl e
      | Inr images \<Rightarrow> process_image_refs ip w 0 images st)"

text \<open>
  The two loops of \<open>extract_fonts_from_css\<close> over the first groups of the matches: a URL
  of the site's domain is appended; the second loop (\<open>dedup\<close>) skips a URL that is
  already in the list.
\<close>

fun collect_fonts ::
  "(string \<Rightarrow> bool) \<Rightarrow> string \<Rightarrow> string \<Rightarrow> bool \<Rightarrow> string list \<Rightarrow> string list
     \<Rightarrow> py_error + string list" where
  "collect_fonts ip base_url domain dedup [] fonts = Inr fonts"
| "collect_fonts ip base_url domain dedup (u # us) fonts =
     (case resolve_url ip u base_url of
        Inl err \<Rightarrow> Inl err
      | Inr abs_url \<Rightarrow>
          collect_fonts ip base_url domain dedup us
            (if is_same_domain ip abs_url domain \<and> \<not> (dedup \<and> abs_url \<in> set fonts)
             then fonts @ [abs_url] else fonts))"

definition extract_fonts_from_css ::
  "(string \<Rightarrow> bool) \<Rightarrow> string \<Rightarrow> string \<Rightarrow> string \<Rightarrow> py_error + string list" where
  "extract_fonts_from_css ip base_url domain css_content =
     (case collect_fonts ip base_url domain False
             (map (group_text 1) (finditer True font_face_pattern css_content)) [] of
        Inl err \<Rightarrow> Inl err
      | Inr fonts \<Rightarrow>
          collect_fonts ip base_url domain True
            (map (group_text 1) (finditer True font_file_pattern css_content)) fonts)"

text \<open>\<open>file_path.name\<close>: the last part of a path.\<close>

definition path_name :: "path \<Rightarrow> string" where
  "path_name p = (case p of Under ps \<Rightarrow> last_piece ps | Absolute ps \<Rightarrow> last_piece ps)"

text \<open>
  The inner loop of \<open>_process_fonts\<close> over the font URLs of one stylesheet. Its state is
  \<open>fonts_found\<close>, the downloader and the text of the stylesheet. A URL that is already in
  \<open>fonts_found\<close> is passed over; a new one is downloaded and replaced in the text. An
  exception ends the loop and is returned with the state reached.
\<close>

fun font_loop ::
  "(string \<Rightarrow> bool) \<Rightarrow> world \<Rightarrow> string list \<Rightarrow> string list \<times> downloader \<times> string
     \<Rightarrow> py_error option \<times> string list \<times> downloader \<times> string" where
  "font_loop ip w [] st = (None, st)"
| "font_loop ip w (font_url # rest) (fonts_found, d, css_content) =
     (if font_url \<in> set fonts_found then font_loop ip w rest (fonts_found, d, css_content)
      else
        (let found = fonts_found @ [font_url]
         in case get_file_extension ip font_url of
              Inl e \<Rightarrow> (Some e, found, d, css_content)
            | Inr ext \<Rightarrow>
                (let filename = (if ext \<noteq> [] then ''font_'' @ str_nat (length found) @ ''.'' @ ext
                                 else ''font.woff'')
                 in case download_resource ip w font_url ''fonts'' filename d of
                      Inl e \<Rightarrow> (Some e, found, d, css_content)
                    | Inr (file_path, d') \<Rightarrow>
                        font_loop ip w rest
                          (found, d',
                           replace css_content font_url
                             (''../fonts/'' @ path_name file_path)))))"

text \<open>
  The body of the outer loop of \<open>_process_fonts\<close> for one file of the \<open>css\<close> directory,
  given by its name and its text (\<open>None\<close> when reading it raises). Every exception is
  caught and leaves the file as it was; the text is written back when the stylesheet
  has font URLs.
\<close>

definition process_css_file ::
  "(string \<Rightarrow> bool) \<Rightarrow> world \<Rightarrow> string \<Rightarrow> string \<Rightarrow> string \<times> string option
     \<Rightarrow> string list \<times> downloader
     \<Rightarrow> (string \<times> string option) \<times> string list \<times> downloader" where
  "process_css_file ip w base_url domain file st =
     (case file of (name, content) \<Rightarrow>
      case st of (fonts_found, d) \<Rightarrow>
        (case content of
           None \<Rightarrow> ((name, None), fonts_found, d)
         | Some css_content \<Rightarrow>
             (case extract_fonts_from_css ip base_url domain css_content of
                Inl e \<Rightarrow> ((name, Some css_content), fonts_found, d)
              | Inr font_urls \<Rightarrow>
                  (case font_loop ip w font_urls (fonts_found, d, css_content) of
                     (Some e, found, d', css') \<Rightarrow> ((name, Some css_content), found, d')
                   | (None, found, d', css') \<Rightarrow>
                       ((name, Some (if font_urls \<noteq> [] then css' else css_content)),
                        found, d')))))"

text \<open>
  \<open>_process_fonts\<close> over the files that \<open>css_dir.glob('*.css')\<close> lists, in the order of
  the listing: the files after the pass and the downloader.
\<close>

fun process_css_files ::
  "(string \<Rightarrow> bool) \<Rightarrow> world \<Rightarrow> string \<Rightarrow> string \<Rightarrow> (string \<times> string option) list
     \<Rightarrow> string list \<times> downloader
     \<Rightarrow> (string \<times> string option) list \<times> string list \<times> downloader" where
  "process_css_files ip w base_url domain [] st = ([], st)"
| "process_css_files ip w base_url domain (file # files) st =
     (case process_css_file ip w base_url domain file st of
        (file', st') \<Rightarrow>
          (case process_css_files ip w base_url domain files st' of
             (files', st'') \<Rightarrow> (file' # files', st'')))"

definition process_fonts ::
  "(string \<Rightarrow> bool) \<Rightarrow> world \<Rightarrow> string \<Rightarrow> string \<Rightarrow> (string \<times> string option) list
     \<Rightarrow> downloader \<Rightarrow> (string \<times> string option) list \<times> downloader" where
  "process_fonts ip w base_url domain css_files d =
     (case process_css_files ip w base_url domain css_files ([], d) of
        (files, fonts_found, d') \<Rightarrow> (files, d'))"

section \<open>The guard of the server (server.py)\<close>

text \<open>
  \<open>WebsiteCloner._should_download\<close>; its \<open>_is_same_domain\<close> has the body of
  \<open>is_same_domain\<close>.
\<close>

definition should_download ::
  "(string \<Rightarrow> bool) \<Rightarrow> string \<Rightarrow> string set \<Rightarrow> string \<Rightarrow> bool" where
  "should_download ip domain downloaded url =
     (if \<not> is_same_domain ip url domain then False
      else if url \<in> downloaded then False
      else if startswith_any url [''data:'', ''javascript:'', ''mailto:'', ''tel:''] then False
      else True)"

section \<open>Notions for the statements\<close>

text \<open>The reason that an attempt failed with, if it failed.\<close>

fun failure_reason :: "attempt \<Rightarrow> string option" where
  "failure_reason (Mkdir_failed e) = Some e"
| "failure_reason (Get_failed k e) = Some e"
| "failure_reason (Write_failed r e) = Some e"
| "failure_reason (Fetched r) = None"

text \<open>The failed attempts of a record, each with its URL and reason, in order.\<close>

fun failures :: "(string \<times> path \<times> attempt) list \<Rightarrow> (string \<times> string) list" where
  "failures [] = []"
| "failures ((u, p, a) # rest) =
     (case failure_reason a of
        None \<Rightarrow> failures rest
      | Some e \<Rightarrow> (u, e) # failures rest)"

text \<open>The URLs of the attempts that ended with the file written, in order.\<close>

fun successes :: "(string \<times> path \<times> attempt) list \<Rightarrow> string list" where
  "successes [] = []"
| "successes ((u, p, a) # rest) =
     (case failure_reason a of
        None \<Rightarrow> u # successes rest
      | Some e \<Rightarrow> successes rest)"

text \<open>
  The record of attempts and the fields of the downloader agree: \<open>failed_urls\<close> lists
  the failed attempts, \<open>downloaded_urls\<close> holds the URLs of the successful ones, and no
  URL was fetched with success twice.
\<close>

definition log_consistent :: "downloader \<Rightarrow> bool" where
  "log_consistent d =
     (failed_urls d = failures (attempts d)
      \<and> downloaded_urls d = set (successes (attempts d))
      \<and> distinct (successes (attempts d)))"

text \<open>
  The path that turn \<open>idx\<close> of the loop of \<open>_process_external_css\<close> or
  \<open>_process_external_js\<close> passes to \<open>download_file\<close> for an element whose attribute
  reads \<open>raw\<close>.
\<close>

definition assigned :: "string \<Rightarrow> string \<Rightarrow> nat \<Rightarrow> string \<Rightarrow> path" where
  "assigned sub ext idx raw =
     resource_path sub (choose_filename (numbered_name ''main_'' idx ext) raw)"

text \<open>What a pass leaves: the document, the fetches made, the paths of the files written.\<close>

definition run_doc :: "py_error + (soup \<times> downloader) \<Rightarrow> py_error + soup" where
  "run_doc r = map_sum id fst r"

definition run_fetches :: "py_error + (soup \<times> downloader) \<Rightarrow> py_error + string list" where
  "run_fetches r = map_sum id (\<lambda>st. fetches (snd st)) r"

definition run_written :: "py_error + (soup \<times> downloader) \<Rightarrow> py_error + path list" where
  "run_written r = map_sum id (\<lambda>st. map fst (written (snd st))) r"

definition run_failed ::
  "py_error + (soup \<times> downloader) \<Rightarrow> py_error + (string \<times> string) list" where
  "run_failed r = map_sum id (\<lambda>st. get_failed_urls (snd st)) r"

text \<open>
  The characters that \<open>urlsplit\<close> leaves in a netloc as they are: no delimiter of the
  netloc, no tab or line break (which it removes), no square bracket.
\<close>

definition plain_host_chr :: "char \<Rightarrow> bool" where
  "plain_host_chr c =
     (\<not> netloc_delim c \<and> \<not> unsafe_byte c \<and> c \<noteq> CHR ''['' \<and> c \<noteq> CHR '']'')"

text \<open>The number that a string of decimal digits stands for.\<close>

definition digits_value :: "string \<Rightarrow> nat" where
  "digits_value s = foldl (\<lambda>a c. 10 * a + (of_char c - 48)) 0 s"

section \<open>Examples\<close>

text \<open>
  Concrete surroundings for the examples: a library that accepts no host in brackets
  (the URLs of the examples have none), responses, worlds and elements.
\<close>

definition no_ipv6 :: "string \<Rightarrow> bool" where
  "no_ipv6 h = False"

definition css_response :: response where
  "css_response =
     \<lparr>header_content_type = ''text/css'', response_text = ''body{}'',
      response_content = ''body{}''\<rparr>"

definition always_fails :: world where
  "always_fails n url p = Get_failed RequestException ''503 Server Error''"

definition always_serves :: world where
  "always_serves n url p = Fetched css_response"

definition second_fails :: world where
  "second_fails n url p =
     (if url = ''https://example.com/b.css''
      then Get_failed RequestException ''503 Server Error''
      else Fetched css_response)"

definition stylesheet_link :: "string \<Rightarrow> element" where
  "stylesheet_link href =
     \<lparr>tag_name = ''link'', attrs = [(''rel'', ''stylesheet''), (''href'', href)],
      tag_string = None\<rparr>"

definition script_src :: "string \<Rightarrow> element" where
  "script_src src = \<lparr>tag_name = ''script'', attrs = [(''src'', src)], tag_string = None\<rparr>"

definition img_src :: "string \<Rightarrow> element" where
  "img_src src = \<lparr>tag_name = ''img'', attrs = [(''src'', src)], tag_string = None\<rparr>"

definition styled :: "string \<Rightarrow> string \<Rightarrow> element" where
  "styled name style = \<lparr>tag_name = name, attrs = [(''style'', style)], tag_string = None\<rparr>"


definition font_response :: response where
  "font_response =
     \<lparr>header_content_type = ''font/woff'', response_text = ''wOFF'',
      response_content = ''wOFF''\<rparr>"

definition serves_fonts :: world where
  "serves_fonts n url p = Fetched font_response"

section \<open>Lemmas\<close>

lemma download_file_skip:
  "url \<in> downloaded_urls d \<Longrightarrow> download_file w url p d = (True, d)"
  by (simp add: download_file_def)

lemma failures_append: "failures (xs @ ys) = failures xs @ failures ys"
  by (induction xs rule: failures.induct) (auto split: option.splits)

lemma successes_append: "successes (xs @ ys) = successes xs @ successes ys"
  by (induction xs rule: successes.induct) (auto split: option.splits)

lemma log_consistent_new: "log_consistent new_downloader"
  by (simp add: log_consistent_def new_downloader_def)

lemma log_consistent_download_file:
  "log_consistent d \<Longrightarrow> log_consistent (snd (download_file w url p d))"
  by (cases "w (length (attempts d)) url p")
     (auto simp: log_consistent_def download_file_def Let_def failures_append successes_append)

lemma split_chr_no_sep: "p \<in> set (split_chr c s) \<Longrightarrow> c \<notin> set p"
  by (induction s arbitrary: p) (auto split: if_splits list.splits)

lemma split_chr_nonempty: "split_chr c s \<noteq> []"
  by (induction s) (auto split: list.splits)

lemma last_piece_no_sep: "c \<notin> set (last_piece (split_chr c s))"
proof -
  have "last_piece (split_chr c s) \<in> set (split_chr c s)"
    using split_chr_nonempty[of c s]
    by (cases "rev (split_chr c s)") (auto simp: last_piece_def dest: arg_cong[where f=set])
  then show ?thesis by (rule split_chr_no_sep)
qed

lemma rfind_chr_bound: "rfind_chr c s = Some i \<Longrightarrow> i < length s"
  by (induction s arbitrary: i) (auto split: option.splits if_splits)

lemma splitext_set: "splitext p = (n, e) \<Longrightarrow> set n \<union> set e \<subseteq> set p"
  by (auto simp: splitext_def Let_def split: option.splits if_splits dest: in_set_takeD in_set_dropD)

lemma splitext_nonempty: "splitext p = (n, e) \<Longrightarrow> p \<noteq> [] \<Longrightarrow> take k n @ e \<noteq> [] \<or> k = 0"
  by (auto simp: splitext_def Let_def split: option.splits if_splits dest: rfind_chr_bound)


lemma strip_set: "set (strip s) \<subseteq> set s"
  by (auto simp: strip_def lstrip_where_def rstrip_where_def dest!: set_dropWhileD)

lemma sub_class_set: "set (sub_class P s) \<subseteq> insert CHR ''_'' (set s)"
  by (auto simp: sub_class_def)

lemma sanitize_filename_set:
  "set (sanitize_filename f) \<subseteq> set f \<union> set ''_file''"
proof -
  let ?f1 = "strip (sub_class unsafe_name_chr f)"
  let ?f2 = "if ?f1 = [] then ''file'' else ?f1"
  have f2: "set ?f2 \<subseteq> set f \<union> set ''_file''"
    using strip_set[of "sub_class unsafe_name_chr f"] sub_class_set[of unsafe_name_chr f]
    by auto
  show ?thesis
  proof (cases "length ?f2 > 255")
    case False
    then have "sanitize_filename f = ?f2" by (simp add: sanitize_filename_def Let_def)
    with f2 show ?thesis by simp
  next
    case True
    obtain n e where ne: "splitext ?f2 = (n, e)" by (cases "splitext ?f2")
    with True have "sanitize_filename f = take 250 n @ e"
      by (simp add: sanitize_filename_def Let_def)
    moreover have "set (take 250 n @ e) \<subseteq> set ?f2"
      using splitext_set[OF ne] by (auto dest: in_set_takeD)
    ultimately show ?thesis using f2 by auto
  qed
qed

lemma sanitize_filename_nonempty: "sanitize_filename f \<noteq> []"
proof -
  let ?f1 = "strip (sub_class unsafe_name_chr f)"
  let ?f2 = "if ?f1 = [] then ''file'' else ?f1"
  have ne2: "?f2 \<noteq> []" by simp
  show ?thesis
  proof (cases "length ?f2 > 255")
    case False
    then have "sanitize_filename f = ?f2" by (simp add: sanitize_filename_def Let_def)
    with ne2 show ?thesis by simp
  next
    case True
    obtain n e where ne: "splitext ?f2 = (n, e)" by (cases "splitext ?f2")
    with True have "sanitize_filename f = take 250 n @ e"
      by (simp add: sanitize_filename_def Let_def)
    moreover have "take 250 n @ e \<noteq> []"
      using splitext_nonempty[OF ne ne2, of 250] by simp
    ultimately show ?thesis by simp
  qed
qed

lemma startswith_hd: "startswith s [c] \<Longrightarrow> c \<in> set s"
  by (cases s) auto

lemma choose_filename_ok:
  assumes "dflt \<noteq> []" "\<not> startswith dflt ''/''"
  shows "choose_filename dflt raw \<noteq> [] \<and> \<not> startswith (choose_filename dflt raw) ''/''"
proof (cases "CHR ''.'' \<in> set (last_piece (split_chr CHR ''/'' raw))")
  case False
  with assms show ?thesis by (simp add: choose_filename_def Let_def)
next
  case True
  let ?p = "last_piece (split_chr CHR ''/'' raw)"
  have eq: "choose_filename dflt raw = sanitize_filename ?p"
    using True by (simp add: choose_filename_def Let_def)
  have "CHR ''/'' \<notin> set (sanitize_filename ?p)"
    using sanitize_filename_set[of ?p] last_piece_no_sep[of "CHR ''/''" raw] by auto
  then have "\<not> startswith (sanitize_filename ?p) ''/''"
    using startswith_hd by blast
  with eq sanitize_filename_nonempty[of ?p] show ?thesis by simp
qed

lemma numbered_name_ok:
  "numbered_name ''main_'' idx ext \<noteq> [] \<and> \<not> startswith (numbered_name ''main_'' idx ext) ''/''"
  by (simp add: numbered_name_def)

lemma resource_path_under:
  assumes "\<not> startswith name ''/''" "sub \<noteq> []" "\<not> startswith sub ''/''"
  shows "resource_path sub name = Under (path_parts sub @ path_parts name)"
  using assms by (simp add: resource_path_def)

lemma process_ref_total:
  assumes "sub \<noteq> []" "\<not> startswith sub ''/''"
  shows "\<exists>rel. relative_str (resource_path sub
             (choose_filename (numbered_name ''main_'' idx ext) (attr_of (doc ! pos) attr))) = Inr rel
         \<and> process_ref ip w sub attr ext idx (url, pos) (doc, d)
           = Inr (doc[pos := set_attr attr rel (doc ! pos)],
                  snd (download_file w url
                    (resource_path sub
                       (choose_filename (numbered_name ''main_'' idx ext) (attr_of (doc ! pos) attr))) d))"
proof -
  let ?fn = "choose_filename (numbered_name ''main_'' idx ext) (attr_of (doc ! pos) attr)"
  have ok: "?fn \<noteq> [] \<and> \<not> startswith ?fn ''/''"
    using choose_filename_ok numbered_name_ok by blast
  then have rp: "resource_path sub ?fn = Under (path_parts sub @ path_parts ?fn)"
    using assms by (simp add: resource_path_under)
  then obtain rel where rel: "relative_str (resource_path sub ?fn) = Inr rel"
    by (simp add: relative_str_def)
  moreover have "process_ref ip w sub attr ext idx (url, pos) (doc, d)
           = Inr (doc[pos := set_attr attr rel (doc ! pos)],
                  snd (download_file w url (resource_path sub ?fn) d))"
    using ok rel
    by (simp add: process_ref_def download_resource_def resource_filename_def Let_def)
  ultimately show ?thesis by blast
qed

lemma process_ref_indep:
  "map_sum id fst (process_ref ip w sub attr ext idx ref (doc, d))
   = map_sum id fst (process_ref ip w2 sub attr ext idx ref (doc, d2))"
  by (cases ref)
     (auto simp: process_ref_def download_resource_def Let_def split: sum.splits prod.splits)

lemma process_refs_indep:
  "map_sum id fst (process_refs ip w sub attr ext idx refs (doc, d))
   = map_sum id fst (process_refs ip w2 sub attr ext idx refs (doc, d2))"
proof (induction refs arbitrary: idx doc d d2)
  case Nil
  show ?case by simp
next
  case (Cons ref refs)
  show ?case
  proof (cases "process_ref ip w sub attr ext idx ref (doc, d)")
    case (Inl e)
    with process_ref_indep[of ip w sub attr ext idx ref doc d w2 d2]
    have "\<exists>e'. process_ref ip w2 sub attr ext idx ref (doc, d2) = Inl e'"
      by (cases "process_ref ip w2 sub attr ext idx ref (doc, d2)") auto
    with Inl process_ref_indep[of ip w sub attr ext idx ref doc d w2 d2]
    show ?thesis by auto
  next
    case (Inr st)
    obtain doc1 d1 where st: "st = (doc1, d1)" by (cases st)
    with Inr process_ref_indep[of ip w sub attr ext idx ref doc d w2 d2]
    obtain d1' where "process_ref ip w2 sub attr ext idx ref (doc, d2) = Inr (doc1, d1')"
      by (cases "process_ref ip w2 sub attr ext idx ref (doc, d2)") auto
    with Inr st Cons.IH[of "Suc idx" doc1 d1 d1'] show ?thesis by simp
  qed
qed

lemma process_refs_effect:
  assumes "sub \<noteq> []" "\<not> startswith sub ''/''"
      and "distinct (map snd refs)" "\<forall>r \<in> set refs. snd r < length doc"
  shows "\<exists>doc' d'. process_refs ip w sub attr ext idx refs (doc, d) = Inr (doc', d')
           \<and> length doc' = length doc
           \<and> (\<forall>pos. pos \<notin> snd ` set refs \<longrightarrow> doc' ! pos = doc ! pos)
           \<and> (\<forall>k < length refs.
                 \<exists>rel. relative_str (assigned sub ext (idx + k) (attr_of (doc ! snd (refs ! k)) attr)) = Inr rel
                   \<and> doc' ! snd (refs ! k) = set_attr attr rel (doc ! snd (refs ! k)))"
  using assms(3,4)
proof (induction refs arbitrary: idx doc d)
  case Nil
  show ?case by simp
next
  case (Cons ref refs)
  obtain url pos where ref: "ref = (url, pos)" by (cases ref)
  from process_ref_total[OF assms(1,2), of idx ext doc pos attr ip w url d]
  obtain rel where rel: "relative_str (assigned sub ext idx (attr_of (doc ! pos) attr)) = Inr rel"
    and step: "process_ref ip w sub attr ext idx (url, pos) (doc, d)
               = Inr (doc[pos := set_attr attr rel (doc ! pos)],
                      snd (download_file w url (assigned sub ext idx (attr_of (doc ! pos) attr)) d))"
    unfolding assigned_def by blast
  let ?doc1 = "doc[pos := set_attr attr rel (doc ! pos)]"
  let ?d1 = "snd (download_file w url (assigned sub ext idx (attr_of (doc ! pos) attr)) d)"
  have pos: "pos < length doc" "pos \<notin> snd ` set refs"
    using Cons.prems ref by auto
  have "distinct (map snd refs)" "\<forall>r \<in> set refs. snd r < length ?doc1"
    using Cons.prems by auto
  from Cons.IH[OF this, of "Suc idx" ?d1]
  obtain doc' d' where
    run: "process_refs ip w sub attr ext (Suc idx) refs (?doc1, ?d1) = Inr (doc', d')"
    and len: "length doc' = length ?doc1"
    and frame: "\<forall>p. p \<notin> snd ` set refs \<longrightarrow> doc' ! p = ?doc1 ! p"
    and each: "\<forall>k < length refs.
        \<exists>rel. relative_str (assigned sub ext (Suc idx + k) (attr_of (?doc1 ! snd (refs ! k)) attr)) = Inr rel
          \<and> doc' ! snd (refs ! k) = set_attr attr rel (?doc1 ! snd (refs ! k))"
    by blast
  have whole: "process_refs ip w sub attr ext idx (ref # refs) (doc, d) = Inr (doc', d')"
    using step run ref by simp
  have others: "\<And>k. k < length refs \<Longrightarrow> ?doc1 ! snd (refs ! k) = doc ! snd (refs ! k)"
  proof -
    fix k assume "k < length refs"
    then have "snd (refs ! k) \<in> snd ` set refs" by (metis imageI nth_mem)
    with pos(2) have "snd (refs ! k) \<noteq> pos" by auto
    then show "?doc1 ! snd (refs ! k) = doc ! snd (refs ! k)" by simp
  qed
  have "\<forall>k < length (ref # refs).
     \<exists>rel. relative_str (assigned sub ext (idx + k) (attr_of (doc ! snd ((ref # refs) ! k)) attr)) = Inr rel
        \<and> doc' ! snd ((ref # refs) ! k) = set_attr attr rel (doc ! snd ((ref # refs) ! k))"
  proof (intro allI impI)
    fix k assume k: "k < length (ref # refs)"
    show "\<exists>rel. relative_str (assigned sub ext (idx + k) (attr_of (doc ! snd ((ref # refs) ! k)) attr)) = Inr rel
        \<and> doc' ! snd ((ref # refs) ! k) = set_attr attr rel (doc ! snd ((ref # refs) ! k))"
    proof (cases k)
      case 0
      have "doc' ! pos = ?doc1 ! pos" using frame pos(2) by blast
      also have "\<dots> = set_attr attr rel (doc ! pos)" using pos(1) by simp
      finally show ?thesis using 0 rel ref by simp
    next
      case (Suc j)
      with k have j: "j < length refs" by simp
      from each j obtain rel' where
        "relative_str (assigned sub ext (Suc idx + j) (attr_of (?doc1 ! snd (refs ! j)) attr)) = Inr rel'"
        "doc' ! snd (refs ! j) = set_attr attr rel' (?doc1 ! snd (refs ! j))"
        by blast
      with others[OF j] Suc show ?thesis by simp
    qed
  qed
  moreover have "\<forall>p. p \<notin> snd ` set (ref # refs) \<longrightarrow> doc' ! p = doc ! p"
    using frame ref by auto
  moreover have "length doc' = length doc" using len by simp
  ultimately show ?case using whole by blast
qed

lemma download_file_attempts_mono:
  "\<exists>new. attempts (snd (download_file w url p d)) = attempts d @ new"
  by (cases "w (length (attempts d)) url p") (auto simp: download_file_def Let_def)

lemma download_file_covers:
  "log_consistent d \<Longrightarrow> url \<in> fst ` set (attempts (snd (download_file w url p d)))"
proof -
  assume lc: "log_consistent d"
  have succ: "\<And>xs. set (successes xs) \<subseteq> fst ` set xs"
  proof -
    fix xs show "set (successes xs) \<subseteq> fst ` set xs"
      by (induction xs rule: successes.induct) (auto split: option.splits)
  qed
  show ?thesis
  proof (cases "url \<in> downloaded_urls d")
    case True
    with lc succ[of "attempts d"] show ?thesis
      by (auto simp: download_file_def log_consistent_def)
  next
    case False
    then show ?thesis
      by (cases "w (length (attempts d)) url p") (auto simp: download_file_def Let_def)
  qed
qed

lemma process_refs_log:
  assumes "sub \<noteq> []" "\<not> startswith sub ''/''"
      and "process_refs ip w sub attr ext idx refs (doc, d) = Inr (doc', d')"
      and "log_consistent d"
  shows "log_consistent d'
       \<and> (\<exists>new. attempts d' = attempts d @ new)
       \<and> (\<forall>r \<in> set refs. fst r \<in> fst ` set (attempts d'))"
  using assms(3,4)
proof (induction refs arbitrary: idx doc d)
  case Nil
  then show ?case by simp
next
  case (Cons ref refs)
  obtain url pos where ref: "ref = (url, pos)" by (cases ref)
  from process_ref_total[OF assms(1,2), of idx ext doc pos attr ip w url d]
  obtain doc1 p where
    step: "process_ref ip w sub attr ext idx (url, pos) (doc, d)
             = Inr (doc1, snd (download_file w url p d))"
    by blast
  let ?d1 = "snd (download_file w url p d)"
  from Cons.prems(1) step ref
  have run: "process_refs ip w sub attr ext (Suc idx) refs (doc1, ?d1) = Inr (doc', d')"
    by simp
  have lc1: "log_consistent ?d1"
    using Cons.prems(2) by (rule log_consistent_download_file)
  from Cons.IH[OF run lc1]
  have ih: "log_consistent d'" "\<exists>new. attempts d' = attempts ?d1 @ new"
    "\<forall>r \<in> set refs. fst r \<in> fst ` set (attempts d')"
    by blast+
  from ih(2) download_file_attempts_mono[of w url p d]
  have mono: "\<exists>new. attempts d' = attempts d @ new" by auto
  from ih(2) download_file_covers[OF Cons.prems(2), of url w p]
  have "url \<in> fst ` set (attempts d')" by auto
  with ih(1,3) mono ref show ?case by auto
qed

lemma extract_refs_positions:
  "extract_refs ip base dmn flt attr xs = Inr found \<Longrightarrow> distinct (map fst xs)
   \<Longrightarrow> distinct (map snd found) \<and> snd ` set found \<subseteq> fst ` set xs"
proof (induction xs arbitrary: found)
  case Nil
  then show ?case by simp
next
  case (Cons x xs)
  obtain i e where x: "x = (i, e)" by (cases x)
  show ?case
  proof (cases "flt e")
    case False
    with Cons x show ?thesis by auto
  next
    case True
    with Cons.prems(1) x obtain url found0 where
      f0: "extract_refs ip base dmn flt attr xs = Inr found0"
      and fd: "found = (if is_same_domain ip url dmn then (url, i) # found0 else found0)"
      by (auto split: sum.splits)
    from Cons.IH[OF f0] Cons.prems(2)
    have "distinct (map snd found0)" "snd ` set found0 \<subseteq> fst ` set xs" by auto
    with fd x Cons.prems(2) show ?thesis by (auto split: if_splits)
  qed
qed

lemma extract_refs_sound:
  "extract_refs ip base dmn flt attr xs = Inr found \<Longrightarrow> (url, i) \<in> set found
   \<Longrightarrow> \<exists>e. (i, e) \<in> set xs \<and> flt e \<and> resolve_url ip (attr_of e attr) base = Inr url
          \<and> is_same_domain ip url dmn"
proof (induction xs arbitrary: found)
  case Nil
  then show ?case by simp
next
  case (Cons x xs)
  obtain j e where x: "x = (j, e)" by (cases x)
  show ?case
  proof (cases "flt e")
    case False
    with Cons x show ?thesis by auto
  next
    case True
    with Cons.prems(1) x obtain u found0 where
      r: "resolve_url ip (attr_of e attr) base = Inr u"
      and f0: "extract_refs ip base dmn flt attr xs = Inr found0"
      and fd: "found = (if is_same_domain ip u dmn then (u, j) # found0 else found0)"
      by (auto split: sum.splits)
    show ?thesis
    proof (cases "(url, i) \<in> set found0")
      case True
      from Cons.IH[OF f0 True] show ?thesis by auto
    next
      case False
      with fd Cons.prems(2) have "is_same_domain ip u dmn" "url = u" "i = j"
        by (auto split: if_splits)
      with r x \<open>flt e\<close> show ?thesis by auto
    qed
  qed
qed

lemma extract_css_positions:
  assumes "extract_external_css ip base dmn doc = Inr refs"
  shows "distinct (map snd refs) \<and> (\<forall>r \<in> set refs. snd r < length doc)"
proof -
  have d: "distinct (map fst (enumerate 0 doc))" by simp
  from extract_refs_positions[OF assms[unfolded extract_external_css_def] d]
  have "distinct (map snd refs)" "snd ` set refs \<subseteq> fst ` set (enumerate 0 doc)" by auto
  moreover have "fst ` set (enumerate 0 doc) = {0..<length doc}"
    using map_fst_enumerate[of 0 doc] by (metis add_0 set_map set_upt)
  ultimately show ?thesis by auto
qed

lemma attr_of_set_attr: "attr_of (set_attr k v e) k = v"
proof -
  have "map_of (set_item k v l) k = Some v" for l
    by (induction l) auto
  then show ?thesis by (simp add: attr_of_def set_attr_def get_attr_def)
qed

lemma css_pass_runs:
  assumes "extract_external_css ip base dmn doc = Inr refs"
  shows "\<exists>doc' d'. process_external_css ip w base dmn (doc, d) = Inr (doc', d')
           \<and> length doc' = length doc
           \<and> (\<forall>pos. pos \<notin> snd ` set refs \<longrightarrow> doc' ! pos = doc ! pos)
           \<and> (\<forall>k < length refs.
                 \<exists>rel. relative_str (assigned ''css'' ''.css'' k
                           (attr_of (doc ! snd (refs ! k)) ''href'')) = Inr rel
                   \<and> attr_of (doc' ! snd (refs ! k)) ''href'' = rel)"
proof -
  from extract_css_positions[OF assms]
  have p: "distinct (map snd refs)" "\<forall>r \<in> set refs. snd r < length doc" by auto
  have s: "''css'' \<noteq> []" "\<not> startswith ''css'' ''/''" by simp_all
  from process_refs_effect[OF s p, of ip w "''href''" "''.css''" 0 d]
  obtain doc' d' where
    run: "process_refs ip w ''css'' ''href'' ''.css'' 0 refs (doc, d) = Inr (doc', d')"
    and len: "length doc' = length doc"
    and frame: "\<forall>pos. pos \<notin> snd ` set refs \<longrightarrow> doc' ! pos = doc ! pos"
    and each: "\<forall>k < length refs.
        \<exists>rel. relative_str (assigned ''css'' ''.css'' (0 + k)
                  (attr_of (doc ! snd (refs ! k)) ''href'')) = Inr rel
          \<and> doc' ! snd (refs ! k) = set_attr ''href'' rel (doc ! snd (refs ! k))"
    by blast
  have "process_external_css ip w base dmn (doc, d) = Inr (doc', d')"
    using assms run by (simp add: process_external_css_def)
  moreover have "\<forall>k < length refs.
                 \<exists>rel. relative_str (assigned ''css'' ''.css'' k
                           (attr_of (doc ! snd (refs ! k)) ''href'')) = Inr rel
                   \<and> attr_of (doc' ! snd (refs ! k)) ''href'' = rel"
    using each by (auto simp: attr_of_set_attr)
  ultimately show ?thesis using len frame by blast
qed

lemma css_pass_indep:
  "run_doc (process_external_css ip w base dmn (doc, d))
   = run_doc (process_external_css ip w2 base dmn (doc, d2))"
  using process_refs_indep[of ip w "''css''" "''href''" "''.css''" 0 _ doc d w2 d2]
  by (auto simp: run_doc_def process_external_css_def split: sum.splits)

lemma css_pass_log:
  assumes "process_external_css ip w base dmn (doc, d) = Inr (doc', d')"
      and "log_consistent d"
      and "extract_external_css ip base dmn doc = Inr refs"
  shows "log_consistent d' \<and> (\<forall>r \<in> set refs. fst r \<in> fst ` set (attempts d'))"
proof -
  have s: "''css'' \<noteq> []" "\<not> startswith ''css'' ''/''" by simp_all
  from assms(1,3) have "process_refs ip w ''css'' ''href'' ''.css'' 0 refs (doc, d) = Inr (doc', d')"
    by (simp add: process_external_css_def)
  from process_refs_log[OF s this assms(2)] show ?thesis by blast
qed

lemma filter_plain: "list_all plain_host_chr h \<Longrightarrow> filter (\<lambda>c. \<not> unsafe_byte c) h = h"
  by (induction h) (auto simp: plain_host_chr_def)

lemma takeWhile_plain:
  "list_all plain_host_chr h \<Longrightarrow> takeWhile (\<lambda>c. \<not> netloc_delim c) (h @ CHR ''/'' # r) = h"
  by (induction h) (auto simp: plain_host_chr_def netloc_delim_def)

lemma dropWhile_plain:
  "list_all plain_host_chr h \<Longrightarrow> dropWhile (\<lambda>c. \<not> netloc_delim c) (h @ CHR ''/'' # r) = CHR ''/'' # r"
  by (induction h) (auto simp: plain_host_chr_def netloc_delim_def)

lemma plain_no_brackets:
  "list_all plain_host_chr h \<Longrightarrow> CHR ''['' \<notin> set h \<and> CHR '']'' \<notin> set h"
  by (induction h) (auto simp: plain_host_chr_def)

lemma urlsplit_https_netloc:
  assumes "list_all plain_host_chr h"
  shows "\<exists>p. urlsplit ip (''https://'' @ h @ ''/'' @ r) [] = Inr p \<and> netloc p = h"
proof -
  let ?r = "filter (\<lambda>c. \<not> unsafe_byte c) r"
  have u1: "filter (\<lambda>c. \<not> unsafe_byte c) (lstrip_where c0_or_space (''https://'' @ h @ ''/'' @ r))
        = ''https://'' @ h @ ''/'' @ ?r"
    using filter_plain[OF assms]
    by (simp add: lstrip_where_def c0_or_space_def unsafe_byte_def)
  have sp: "split_scheme [] (''https://'' @ h @ ''/'' @ ?r) = (''https'', ''//'' @ h @ ''/'' @ ?r)"
    by (simp add: split_scheme_def before_chr_def after_chr_def ascii_alpha_def scheme_char_def
        lower_def lower_chr_def Let_def)
  have nl: "splitnetloc (''//'' @ h @ ''/'' @ ?r) = (h, ''/'' @ ?r)"
    using takeWhile_plain[OF assms, of ?r] dropWhile_plain[OF assms, of ?r]
    by (simp add: splitnetloc_def Let_def)
  have nr: "\<not> netloc_raises ip h"
    using plain_no_brackets[OF assms] by (simp add: netloc_raises_def Let_def)
  show ?thesis
    unfolding urlsplit_def u1
    using sp nl nr
    by (simp add: Let_def rstrip_where_def lstrip_where_def split: prod.splits)
qed

lemma urlparse_netloc: "urlparse ip u s = Inr p \<Longrightarrow> \<exists>q. urlsplit ip u s = Inr q \<and> netloc q = netloc p"
  by (auto simp: urlparse_def Let_def split: sum.splits if_splits prod.splits)

lemma urlparse_ok: "urlsplit ip u s = Inr q \<Longrightarrow> \<exists>p. urlparse ip u s = Inr p \<and> netloc p = netloc q"
  by (auto simp: urlparse_def Let_def split: sum.splits if_splits prod.splits)

lemma same_domain_https:
  assumes "list_all plain_host_chr h"
  shows "is_same_domain ip (''https://'' @ h @ ''/'' @ r) dmn = (h = dmn \<or> h = [])"
proof -
  from urlsplit_https_netloc[OF assms, of ip r] obtain q where
    "urlsplit ip (''https://'' @ h @ ''/'' @ r) [] = Inr q" "netloc q = h" by blast
  from urlparse_ok[OF this(1)] this(2) obtain p where
    "urlparse ip (''https://'' @ h @ ''/'' @ r) [] = Inr p" "netloc p = h" by auto
  then show ?thesis by (simp add: is_same_domain_def)
qed

lemma digit_chr_value: "n < 10 \<Longrightarrow> (of_char (digit_chr n) :: nat) - 48 = n"
  by (simp add: digit_chr_def)

lemma str_nat_small: "n < 10 \<Longrightarrow> str_nat n = [digit_chr n]"
  by (subst str_nat.simps) simp

lemma str_nat_big: "\<not> n < 10 \<Longrightarrow> str_nat n = str_nat (n div 10) @ [digit_chr (n mod 10)]"
  by (subst str_nat.simps) simp

lemma digits_value_str_nat: "digits_value (str_nat n) = n"
proof (induction n rule: str_nat.induct)
  case (1 n)
  show ?case
  proof (cases "n < 10")
    case True
    then show ?thesis
      by (simp add: str_nat_small digits_value_def digit_chr_value)
  next
    case False
    with 1 have ih: "digits_value (str_nat (n div 10)) = n div 10" by simp
    have "digits_value (str_nat n)
          = 10 * digits_value (str_nat (n div 10)) + (of_char (digit_chr (n mod 10)) - 48)"
      using False by (simp add: str_nat_big digits_value_def)
    also have "\<dots> = 10 * (n div 10) + n mod 10"
      using ih by (simp add: digit_chr_value)
    finally show ?thesis by simp
  qed
qed

lemma str_nat_inj: "str_nat n = str_nat m \<Longrightarrow> n = m"
  by (metis digits_value_str_nat)

lemma digit_chr_digit: "k < 10 \<Longrightarrow> ascii_digit (digit_chr k)"
  by (simp add: ascii_digit_def digit_chr_def)

lemma str_nat_digits: "c \<in> set (str_nat n) \<Longrightarrow> ascii_digit c"
proof (induction n arbitrary: c rule: str_nat.induct)
  case (1 n)
  show ?case
  proof (cases "n < 10")
    case True
    with 1(2) digit_chr_digit[of n] show ?thesis by (simp add: str_nat_small)
  next
    case False
    with 1(2) have "c \<in> set (str_nat (n div 10)) \<or> c = digit_chr (n mod 10)"
      by (auto simp: str_nat_big)
    with 1(1)[OF False] digit_chr_digit[of "n mod 10"] show ?thesis by auto
  qed
qed


lemma split_chr_single: "c \<notin> set s \<Longrightarrow> split_chr c s = [s]"
  by (induction s) auto

lemma numbered_rel:
  assumes "relative_str (assigned ''css'' ''.css'' idx raw) = Inr rel"
      and "CHR ''.'' \<notin> set (last_piece (split_chr CHR ''/'' raw))"
  shows "rel = ''css/main_'' @ str_nat (idx + 1) @ ''.css''"
proof -
  let ?n = "''main_'' @ str_nat (idx + 1) @ ''.css''"
  have dg: "\<forall>c \<in> set (str_nat (idx + 1)). ascii_digit c" using str_nat_digits by blast
  have ns: "CHR ''/'' \<notin> set ?n" "CHR 0x5C \<notin> set ?n"
    using dg by (auto simp: ascii_digit_def)
  have pp: "path_parts ?n = [?n]"
    using split_chr_single[OF ns(1)] by (simp add: path_parts_def)
  have "assigned ''css'' ''.css'' idx raw = Under ([''css''] @ [?n])"
    using assms(2) pp
    by (simp add: assigned_def choose_filename_def numbered_name_def resource_path_def
        path_parts_def Let_def)
  with assms(1) have "rel = map (\<lambda>c. if c = CHR 0x5C then CHR ''/'' else c) (''css/'' @ ?n)"
    by (simp add: relative_str_def)
  also have "\<dots> = ''css/'' @ ?n"
  proof (rule map_idI)
    fix c assume "c \<in> set (''css/'' @ ?n)"
    with ns(2) have "c \<noteq> CHR 0x5C" by auto
    then show "(if c = CHR 0x5C then CHR ''/'' else c) = c" by simp
  qed
  finally show ?thesis by simp
qed

lemma dotted_assigned:
  assumes "CHR ''.'' \<in> set (last_piece (split_chr CHR ''/'' raw))"
  shows "assigned sub ext idx raw
         = resource_path sub (sanitize_filename (last_piece (split_chr CHR ''/'' raw)))"
  using assms by (simp add: assigned_def choose_filename_def Let_def)

lemma should_download_refuses_schemes:
  "startswith_any url [''data:'', ''javascript:'', ''mailto:'', ''tel:'']
   \<Longrightarrow> \<not> should_download ip dmn downloaded url"
  by (simp add: should_download_def)

text \<open>
  The path that \<open>download_resource\<close> returns and the document that
  \<open>_process_external_css\<close> leaves are the same in every world and for every state of
  the downloader.
\<close>

lemma css_pass_local_paths:
  "map_sum id fst (download_resource ip w url sub fn d)
     = map_sum id fst (download_resource ip w2 url sub fn d2)
   \<and> (fn \<noteq> [] \<longrightarrow>
        (\<exists>d1. download_resource ip w url sub fn d = Inr (resource_path sub fn, d1)))
   \<and> run_doc (process_external_css ip w base dmn (doc, d))
       = run_doc (process_external_css ip w2 base dmn (doc, d2))
   \<and> (extract_external_css ip base dmn doc = Inr refs \<longrightarrow>
        (\<exists>doc' d'. process_external_css ip w base dmn (doc, d) = Inr (doc', d')
           \<and> (\<forall>k < length refs.
                 \<exists>rel. relative_str (assigned ''css'' ''.css'' k
                           (attr_of (doc ! snd (refs ! k)) ''href'')) = Inr rel
                   \<and> attr_of (doc' ! snd (refs ! k)) ''href'' = rel)))"
proof (intro conjI impI)
  show "map_sum id fst (download_resource ip w url sub fn d)
     = map_sum id fst (download_resource ip w2 url sub fn d2)"
    by (simp add: download_resource_def Let_def split: sum.splits)
  show "\<exists>d1. download_resource ip w url sub fn d = Inr (resource_path sub fn, d1)"
    if "fn \<noteq> []"
    using that by (simp add: download_resource_def resource_filename_def Let_def)
  show "run_doc (process_external_css ip w base dmn (doc, d))
       = run_doc (process_external_css ip w2 base dmn (doc, d2))"
    by (rule css_pass_indep)
  show "\<exists>doc' d'. process_external_css ip w base dmn (doc, d) = Inr (doc', d')
           \<and> (\<forall>k < length refs.
                 \<exists>rel. relative_str (assigned ''css'' ''.css'' k
                           (attr_of (doc ! snd (refs ! k)) ''href'')) = Inr rel
                   \<and> attr_of (doc' ! snd (refs ! k)) ''href'' = rel)"
    if "extract_external_css ip base dmn doc = Inr refs"
    using css_pass_runs[OF that, of w d] by blast
qed

section \<open>The claims\<close>

text \<open>
  Claim C1 as stated does not hold: with two stylesheet links that resolve to one URL
  and a server that answers with an error, the URL is fetched twice.
\<close>

theorem same_url_fetched_twice_after_failure:
  "run_fetches (process_external_css no_ipv6 always_fails ''https://example.com'' ''example.com''
      ([stylesheet_link ''/a.css'', stylesheet_link ''https://example.com/a.css''],
       new_downloader))
   = Inr [''https://example.com/a.css'', ''https://example.com/a.css'']"
  by code_simp

text \<open>
  Claim C1, amended. At most one successful fetch is made per URL: a call of
  \<open>download_file\<close> for a URL in \<open>downloaded_urls\<close> returns \<open>True\<close> and changes nothing, and
  after \<open>_process_external_css\<close> no URL has two successful attempts. A document whose
  two stylesheet links resolve to the same URL causes exactly one fetch when the first
  attempt succeeds.
\<close>

theorem successful_fetch_is_not_repeated:
  "(url \<in> downloaded_urls d \<longrightarrow> download_file w url p d = (True, d))
   \<and> (log_consistent d \<and> process_external_css ip w base dmn (doc, d) = Inr (doc', d')
        \<longrightarrow> distinct (successes (attempts d')))
   \<and> (extract_external_css ip base dmn doc = Inr [(u, i), (u, j)]
        \<and> failure_reason (w 0 u (assigned ''css'' ''.css'' 0 (attr_of (doc ! i) ''href''))) = None
        \<longrightarrow> run_fetches (process_external_css ip w base dmn (doc, new_downloader)) = Inr [u])"
proof (intro conjI impI)
  show "download_file w url p d = (True, d)" if "url \<in> downloaded_urls d"
    using that by (rule download_file_skip)
next
  assume a: "log_consistent d \<and> process_external_css ip w base dmn (doc, d) = Inr (doc', d')"
  then obtain refs where refs: "extract_external_css ip base dmn doc = Inr refs"
    by (auto simp: process_external_css_def split: sum.splits)
  from a css_pass_log[OF _ _ refs] have "log_consistent d'" by blast
  then show "distinct (successes (attempts d'))" by (simp add: log_consistent_def)
next
  assume a: "extract_external_css ip base dmn doc = Inr [(u, i), (u, j)]
        \<and> failure_reason (w 0 u (assigned ''css'' ''.css'' 0 (attr_of (doc ! i) ''href''))) = None"
  let ?p = "assigned ''css'' ''.css'' 0 (attr_of (doc ! i) ''href'')"
  have s: "''css'' \<noteq> []" "\<not> startswith ''css'' ''/''" by simp_all
  from a obtain r where r: "w 0 u ?p = Fetched r"
    by (cases "w 0 u ?p") auto
  let ?d1 = "snd (download_file w u ?p new_downloader)"
  have d1: "?d1 = \<lparr>downloaded_urls = {u}, failed_urls = [], attempts = [(u, ?p, Fetched r)],
                   written = [(?p, body_to_write r)]\<rparr>"
    using r by (simp add: download_file_def new_downloader_def Let_def)
  from process_ref_total[OF s, of 0 "''.css''" doc i "''href''" ip w u new_downloader]
  obtain doc1 where step1: "process_ref ip w ''css'' ''href'' ''.css'' 0 (u, i) (doc, new_downloader)
      = Inr (doc1, ?d1)"
    unfolding assigned_def by blast
  from process_ref_total[OF s, of 1 "''.css''" doc1 j "''href''" ip w u ?d1]
  obtain doc2 q where step2: "process_ref ip w ''css'' ''href'' ''.css'' 1 (u, j) (doc1, ?d1)
      = Inr (doc2, snd (download_file w u q ?d1))"
    by blast
  have skip: "snd (download_file w u q ?d1) = ?d1"
    by (subst d1, subst d1) (simp add: download_file_def)
  have "process_external_css ip w base dmn (doc, new_downloader) = Inr (doc2, ?d1)"
    using a step1 step2 skip by (simp add: process_external_css_def)
  then show "run_fetches (process_external_css ip w base dmn (doc, new_downloader)) = Inr [u]"
    by (simp add: run_fetches_def fetches_def d1)
qed

theorem successful_fetch_is_not_repeated_witness:
  "download_file always_serves ''https://example.com/a.css'' (Under [''css'', ''a.css''])
     (snd (download_file always_serves ''https://example.com/a.css'' (Under [''css'', ''a.css''])
        new_downloader))
   = (True, snd (download_file always_serves ''https://example.com/a.css''
        (Under [''css'', ''a.css'']) new_downloader))
   \<and> run_fetches (process_external_css no_ipv6 always_serves ''https://example.com''
        ''example.com''
        ([stylesheet_link ''/a.css'', stylesheet_link ''https://example.com/a.css''],
         new_downloader))
     = Inr [''https://example.com/a.css'']"
proof -
  let ?doc = "[stylesheet_link ''/a.css'', stylesheet_link ''https://example.com/a.css'']"
  let ?d1 = "snd (download_file always_serves ''https://example.com/a.css''
        (Under [''css'', ''a.css'']) new_downloader)"
  have in1: "''https://example.com/a.css'' \<in> downloaded_urls ?d1"
    by (simp add: download_file_def always_serves_def new_downloader_def Let_def)
  have ex: "extract_external_css no_ipv6 ''https://example.com'' ''example.com'' ?doc
      = Inr [(''https://example.com/a.css'', 0), (''https://example.com/a.css'', 1)]"
    by code_simp
  have ok: "failure_reason (always_serves 0 ''https://example.com/a.css''
      (assigned ''css'' ''.css'' 0 (attr_of (?doc ! 0) ''href''))) = None"
    by (simp add: always_serves_def)
  note inst = successful_fetch_is_not_repeated
    [where url = "''https://example.com/a.css''" and d = ?d1 and w = always_serves
       and p = "Under [''css'', ''a.css'']" and ip = no_ipv6
       and base = "''https://example.com''" and dmn = "''example.com''" and doc = ?doc
       and u = "''https://example.com/a.css''" and i = 0 and j = 1]
  from inst in1 have a: "download_file always_serves ''https://example.com/a.css''
      (Under [''css'', ''a.css'']) ?d1 = (True, ?d1)"
    by blast
  from inst ex ok have b: "run_fetches (process_external_css no_ipv6 always_serves
      ''https://example.com'' ''example.com'' (?doc, new_downloader))
     = Inr [''https://example.com/a.css'']"
    by blast
  from a b show ?thesis by blast
qed

text \<open>
  Claim C2 as stated does not hold: two stylesheet links with the same \<open>href\<close>, whose
  last piece has no dot, are rewritten to two different local paths.
\<close>

theorem same_url_two_local_paths:
  "run_doc (process_external_css no_ipv6 always_serves ''https://example.com'' ''example.com''
      ([stylesheet_link ''/styles'', stylesheet_link ''/styles''], new_downloader))
   = Inr [stylesheet_link ''css/main_1.css'', stylesheet_link ''css/main_2.css'']"
  by code_simp

text \<open>
  Claim C2, amended. The local path of a reference is computed from the text of its
  attribute and its position in the extracted list, not from its URL. Two extracted
  links (so also two that resolve to one URL) are rewritten to the same local path
  when the last pieces of both attributes have a dot and sanitize to the same name, and
  to the different paths \<open>css/main_(k+1).css\<close> and \<open>css/main_(l+1).css\<close> when neither
  last piece has a dot.
\<close>

theorem local_path_follows_attribute_text:
  assumes "extract_external_css ip base dmn doc = Inr refs"
      and "k < length refs" and "l < length refs" and "k \<noteq> l"
      and "process_external_css ip w base dmn (doc, d) = Inr (doc', d')"
  shows "(CHR ''.'' \<in> set (last_piece (split_chr CHR ''/'' (attr_of (doc ! snd (refs ! k)) ''href'')))
          \<and> CHR ''.'' \<in> set (last_piece (split_chr CHR ''/'' (attr_of (doc ! snd (refs ! l)) ''href'')))
          \<and> sanitize_filename (last_piece (split_chr CHR ''/'' (attr_of (doc ! snd (refs ! k)) ''href'')))
            = sanitize_filename (last_piece (split_chr CHR ''/'' (attr_of (doc ! snd (refs ! l)) ''href'')))
          \<longrightarrow> attr_of (doc' ! snd (refs ! k)) ''href'' = attr_of (doc' ! snd (refs ! l)) ''href'')
       \<and> (CHR ''.'' \<notin> set (last_piece (split_chr CHR ''/'' (attr_of (doc ! snd (refs ! k)) ''href'')))
          \<and> CHR ''.'' \<notin> set (last_piece (split_chr CHR ''/'' (attr_of (doc ! snd (refs ! l)) ''href'')))
          \<longrightarrow> attr_of (doc' ! snd (refs ! k)) ''href'' = ''css/main_'' @ str_nat (k + 1) @ ''.css''
            \<and> attr_of (doc' ! snd (refs ! l)) ''href'' = ''css/main_'' @ str_nat (l + 1) @ ''.css''
            \<and> attr_of (doc' ! snd (refs ! k)) ''href'' \<noteq> attr_of (doc' ! snd (refs ! l)) ''href'')"
proof -
  let ?rk = "attr_of (doc ! snd (refs ! k)) ''href''"
  let ?rl = "attr_of (doc ! snd (refs ! l)) ''href''"
  from css_pass_runs[OF assms(1), of w d] assms(5)
  have each: "\<forall>k < length refs.
      \<exists>rel. relative_str (assigned ''css'' ''.css'' k (attr_of (doc ! snd (refs ! k)) ''href'')) = Inr rel
            \<and> attr_of (doc' ! snd (refs ! k)) ''href'' = rel"
    by auto
  from each assms(2) obtain relk where
    k: "relative_str (assigned ''css'' ''.css'' k ?rk) = Inr relk"
       "attr_of (doc' ! snd (refs ! k)) ''href'' = relk" by blast
  from each assms(3) obtain rell where
    l: "relative_str (assigned ''css'' ''.css'' l ?rl) = Inr rell"
       "attr_of (doc' ! snd (refs ! l)) ''href'' = rell" by blast
  show ?thesis
  proof (intro conjI impI)
    assume a: "CHR ''.'' \<in> set (last_piece (split_chr CHR ''/'' ?rk))
          \<and> CHR ''.'' \<in> set (last_piece (split_chr CHR ''/'' ?rl))
          \<and> sanitize_filename (last_piece (split_chr CHR ''/'' ?rk))
            = sanitize_filename (last_piece (split_chr CHR ''/'' ?rl))"
    then have "assigned ''css'' ''.css'' k ?rk = assigned ''css'' ''.css'' l ?rl"
      by (simp add: dotted_assigned)
    with k l show "attr_of (doc' ! snd (refs ! k)) ''href'' = attr_of (doc' ! snd (refs ! l)) ''href''"
      by simp
  next
    assume a: "CHR ''.'' \<notin> set (last_piece (split_chr CHR ''/'' ?rk))
          \<and> CHR ''.'' \<notin> set (last_piece (split_chr CHR ''/'' ?rl))"
    from numbered_rel[OF k(1)] a k(2)
    show nk: "attr_of (doc' ! snd (refs ! k)) ''href'' = ''css/main_'' @ str_nat (k + 1) @ ''.css''"
      by simp
    from numbered_rel[OF l(1)] a l(2)
    show nl: "attr_of (doc' ! snd (refs ! l)) ''href'' = ''css/main_'' @ str_nat (l + 1) @ ''.css''"
      by simp
    from assms(4) have "str_nat (k + 1) \<noteq> str_nat (l + 1)"
      using str_nat_inj by fastforce
    with nk nl show "attr_of (doc' ! snd (refs ! k)) ''href'' \<noteq> attr_of (doc' ! snd (refs ! l)) ''href''"
      by simp
  qed
qed


theorem local_path_follows_attribute_text_witness:
  "run_doc (process_external_css no_ipv6 always_serves ''https://example.com'' ''example.com''
      ([stylesheet_link ''/theme/a.css'', stylesheet_link ''https://example.com/theme/a.css''],
       new_downloader))
   = Inr [stylesheet_link ''css/a.css'', stylesheet_link ''css/a.css'']
   \<and> attr_of (stylesheet_link ''css/a.css'') ''href'' = ''css/a.css''"
proof -
  let ?doc = "[stylesheet_link ''/theme/a.css'', stylesheet_link ''https://example.com/theme/a.css'']"
  let ?run = "process_external_css no_ipv6 always_serves ''https://example.com'' ''example.com''
      (?doc, new_downloader)"
  have ex: "extract_external_css no_ipv6 ''https://example.com'' ''example.com'' ?doc
      = Inr [(''https://example.com/theme/a.css'', 0), (''https://example.com/theme/a.css'', 1)]"
    by code_simp
  from css_pass_runs[OF ex, of always_serves new_downloader]
  obtain doc' d' where run: "?run = Inr (doc', d')" by blast
  have lens: "(0::nat) < length [(''https://example.com/theme/a.css'', 0::nat),
      (''https://example.com/theme/a.css'', 1)]"
    "(1::nat) < length [(''https://example.com/theme/a.css'', 0::nat),
      (''https://example.com/theme/a.css'', 1)]" "(0::nat) \<noteq> 1"
    by simp_all
  have dots: "CHR ''.'' \<in> set (last_piece (split_chr CHR ''/'' (attr_of (?doc ! 0) ''href'')))"
    "CHR ''.'' \<in> set (last_piece (split_chr CHR ''/'' (attr_of (?doc ! 1) ''href'')))"
    "sanitize_filename (last_piece (split_chr CHR ''/'' (attr_of (?doc ! 0) ''href'')))
       = sanitize_filename (last_piece (split_chr CHR ''/'' (attr_of (?doc ! 1) ''href'')))"
    by code_simp+
  from local_path_follows_attribute_text[OF ex lens run, THEN conjunct1] dots
  have same: "attr_of (doc' ! 0) ''href'' = attr_of (doc' ! 1) ''href''" by simp
  have full: "run_doc ?run
      = Inr [stylesheet_link ''css/a.css'', stylesheet_link ''css/a.css'']"
    by code_simp
  have val: "attr_of (stylesheet_link ''css/a.css'') ''href'' = ''css/a.css''"
    by code_simp
  from same full val show ?thesis by blast
qed

text \<open>
  Claim C3 as stated does not hold: two stylesheet links to different URLs whose last
  pieces are both \<open>main.css\<close> are rewritten to the one path \<open>css/main.css\<close>, and both
  responses are written to that one file.
\<close>

theorem distinct_urls_one_local_file:
  "run_doc (process_external_css no_ipv6 always_serves ''https://example.com'' ''example.com''
      ([stylesheet_link ''/a/main.css'', stylesheet_link ''/b/main.css''], new_downloader))
   = Inr [stylesheet_link ''css/main.css'', stylesheet_link ''css/main.css'']
   \<and> run_fetches (process_external_css no_ipv6 always_serves ''https://example.com''
        ''example.com''
        ([stylesheet_link ''/a/main.css'', stylesheet_link ''/b/main.css''], new_downloader))
     = Inr [''https://example.com/a/main.css'', ''https://example.com/b/main.css'']
   \<and> run_written (process_external_css no_ipv6 always_serves ''https://example.com''
        ''example.com''
        ([stylesheet_link ''/a/main.css'', stylesheet_link ''/b/main.css''], new_downloader))
     = Inr [Under [''css'', ''main.css''], Under [''css'', ''main.css'']]"
  by (intro conjI; code_simp)

text \<open>
  Claim C3, amended. No suffix is added on a collision. An extracted link whose last
  piece has a dot is rewritten to the path of the sanitized piece below \<open>css\<close>, so two
  links to different URLs whose pieces sanitize to the same name are rewritten to one
  and the same path. The numbered names are the default names: a link whose last piece
  has no dot is rewritten to \<open>css/main_(k+1).css\<close>, \<open>k\<close> being its position in the
  extracted list.
\<close>

theorem colliding_names_share_one_path:
  assumes "extract_external_css ip base dmn doc = Inr refs"
      and "k < length refs" and "l < length refs"
      and "process_external_css ip w base dmn (doc, d) = Inr (doc', d')"
  shows "(CHR ''.'' \<in> set (last_piece (split_chr CHR ''/'' (attr_of (doc ! snd (refs ! k)) ''href'')))
          \<longrightarrow> relative_str (resource_path ''css''
                 (sanitize_filename
                    (last_piece (split_chr CHR ''/'' (attr_of (doc ! snd (refs ! k)) ''href'')))))
               = Inr (attr_of (doc' ! snd (refs ! k)) ''href''))
       \<and> (CHR ''.'' \<notin> set (last_piece (split_chr CHR ''/'' (attr_of (doc ! snd (refs ! k)) ''href'')))
          \<longrightarrow> attr_of (doc' ! snd (refs ! k)) ''href'' = ''css/main_'' @ str_nat (k + 1) @ ''.css'')
       \<and> (fst (refs ! k) \<noteq> fst (refs ! l)
          \<and> CHR ''.'' \<in> set (last_piece (split_chr CHR ''/'' (attr_of (doc ! snd (refs ! k)) ''href'')))
          \<and> CHR ''.'' \<in> set (last_piece (split_chr CHR ''/'' (attr_of (doc ! snd (refs ! l)) ''href'')))
          \<and> sanitize_filename (last_piece (split_chr CHR ''/'' (attr_of (doc ! snd (refs ! k)) ''href'')))
            = sanitize_filename (last_piece (split_chr CHR ''/'' (attr_of (doc ! snd (refs ! l)) ''href'')))
          \<longrightarrow> attr_of (doc' ! snd (refs ! k)) ''href'' = attr_of (doc' ! snd (refs ! l)) ''href'')"
proof -
  let ?rk = "attr_of (doc ! snd (refs ! k)) ''href''"
  let ?rl = "attr_of (doc ! snd (refs ! l)) ''href''"
  from css_pass_runs[OF assms(1), of w d] assms(4)
  have each: "\<forall>k < length refs.
      \<exists>rel. relative_str (assigned ''css'' ''.css'' k (attr_of (doc ! snd (refs ! k)) ''href'')) = Inr rel
            \<and> attr_of (doc' ! snd (refs ! k)) ''href'' = rel"
    by auto
  from each assms(2) obtain relk where
    k: "relative_str (assigned ''css'' ''.css'' k ?rk) = Inr relk"
       "attr_of (doc' ! snd (refs ! k)) ''href'' = relk" by blast
  from each assms(3) obtain rell where
    l: "relative_str (assigned ''css'' ''.css'' l ?rl) = Inr rell"
       "attr_of (doc' ! snd (refs ! l)) ''href'' = rell" by blast
  show ?thesis
  proof (intro conjI impI)
    assume "CHR ''.'' \<in> set (last_piece (split_chr CHR ''/'' ?rk))"
    with k show "relative_str (resource_path ''css''
                 (sanitize_filename (last_piece (split_chr CHR ''/'' ?rk))))
               = Inr (attr_of (doc' ! snd (refs ! k)) ''href'')"
      by (simp add: dotted_assigned)
  next
    assume "CHR ''.'' \<notin> set (last_piece (split_chr CHR ''/'' ?rk))"
    with numbered_rel[OF k(1)] k(2)
    show "attr_of (doc' ! snd (refs ! k)) ''href'' = ''css/main_'' @ str_nat (k + 1) @ ''.css''"
      by simp
  next
    assume "fst (refs ! k) \<noteq> fst (refs ! l)
          \<and> CHR ''.'' \<in> set (last_piece (split_chr CHR ''/'' ?rk))
          \<and> CHR ''.'' \<in> set (last_piece (split_chr CHR ''/'' ?rl))
          \<and> sanitize_filename (last_piece (split_chr CHR ''/'' ?rk))
            = sanitize_filename (last_piece (split_chr CHR ''/'' ?rl))"
    then have "assigned ''css'' ''.css'' k ?rk = assigned ''css'' ''.css'' l ?rl"
      by (simp add: dotted_assigned)
    with k l show "attr_of (doc' ! snd (refs ! k)) ''href'' = attr_of (doc' ! snd (refs ! l)) ''href''"
      by simp
  qed
qed

theorem colliding_names_share_one_path_witness:
  "run_doc (process_external_css no_ipv6 always_serves ''https://example.com'' ''example.com''
      ([stylesheet_link ''/a/site.min.css'', stylesheet_link ''/b/site.min.css''],
       new_downloader))
   = Inr [stylesheet_link ''css/site.min.css'', stylesheet_link ''css/site.min.css'']
   \<and> attr_of (stylesheet_link ''css/site.min.css'') ''href'' = ''css/site.min.css''"
proof -
  let ?doc = "[stylesheet_link ''/a/site.min.css'', stylesheet_link ''/b/site.min.css'']"
  let ?run = "process_external_css no_ipv6 always_serves ''https://example.com'' ''example.com''
      (?doc, new_downloader)"
  have ex: "extract_external_css no_ipv6 ''https://example.com'' ''example.com'' ?doc
      = Inr [(''https://example.com/a/site.min.css'', 0),
             (''https://example.com/b/site.min.css'', 1)]"
    by code_simp
  from css_pass_runs[OF ex, of always_serves new_downloader]
  obtain doc' d' where run: "?run = Inr (doc', d')" by blast
  have lens: "(0::nat) < length [(''https://example.com/a/site.min.css'', 0::nat),
      (''https://example.com/b/site.min.css'', 1)]"
    "(1::nat) < length [(''https://example.com/a/site.min.css'', 0::nat),
      (''https://example.com/b/site.min.css'', 1)]"
    by simp_all
  have dots: "''https://example.com/a/site.min.css'' \<noteq> ''https://example.com/b/site.min.css''"
    "CHR ''.'' \<in> set (last_piece (split_chr CHR ''/'' (attr_of (?doc ! 0) ''href'')))"
    "CHR ''.'' \<in> set (last_piece (split_chr CHR ''/'' (attr_of (?doc ! 1) ''href'')))"
    "sanitize_filename (last_piece (split_chr CHR ''/'' (attr_of (?doc ! 0) ''href'')))
       = sanitize_filename (last_piece (split_chr CHR ''/'' (attr_of (?doc ! 1) ''href'')))"
    by code_simp+
  from colliding_names_share_one_path[OF ex lens run, THEN conjunct2, THEN conjunct2] dots
  have same: "attr_of (doc' ! 0) ''href'' = attr_of (doc' ! 1) ''href''" by simp
  have full: "run_doc ?run
      = Inr [stylesheet_link ''css/site.min.css'', stylesheet_link ''css/site.min.css'']"
    by code_simp
  have val: "attr_of (stylesheet_link ''css/site.min.css'') ''href'' = ''css/site.min.css''"
    by code_simp
  from same full val show ?thesis by blast
qed

text \<open>
  Claim C4. \<open>download_resource\<close> returns the local path whether or not the fetch
  succeeds, and for an \<open>img\<close> the \<open>src\<close> is set to that path. For a \<open>url(...)\<close> of a
  \<open>style\<close> attribute that is written relative (here \<open>/bg.png\<close>) the path
  \<open>images/image_1.png\<close> is assigned and the URL is requested, and with a server that
  answers the file is written there, but the reference is not rewritten:
  \<open>_process_images\<close> searches the text of the attribute for the absolute URL, which
  does not occur in it, so the attribute keeps \<open>url(/bg.png)\<close>.
\<close>

theorem relative_style_url_is_not_rewritten:
  "extract_images no_ipv6 ''https://example.com'' ''example.com''
      [styled ''div'' ''background:url(/bg.png)'']
     = Inr [(''https://example.com/bg.png'', 0)]
   \<and> map_sum id fst (download_resource no_ipv6 always_fails ''https://example.com/bg.png''
        ''images'' ''image_1.png'' new_downloader)
     = Inr (Under [''images'', ''image_1.png''])
   \<and> run_fetches (process_images no_ipv6 always_fails ''https://example.com'' ''example.com''
        ([styled ''div'' ''background:url(/bg.png)''], new_downloader))
     = Inr [''https://example.com/bg.png'']
   \<and> run_doc (process_images no_ipv6 always_fails ''https://example.com'' ''example.com''
        ([styled ''div'' ''background:url(/bg.png)''], new_downloader))
     = Inr [styled ''div'' ''background:url(/bg.png)'']
   \<and> run_written (process_images no_ipv6 always_serves ''https://example.com'' ''example.com''
        ([styled ''div'' ''background:url(/bg.png)''], new_downloader))
     = Inr [Under [''images'', ''image_1.png'']]
   \<and> run_doc (process_images no_ipv6 always_serves ''https://example.com'' ''example.com''
        ([styled ''div'' ''background:url(/bg.png)''], new_downloader))
     = Inr [styled ''div'' ''background:url(/bg.png)'']
   \<and> run_doc (process_images no_ipv6 always_fails ''https://example.com'' ''example.com''
        ([img_src ''/bg.png''], new_downloader))
     = Inr [img_src ''images/bg.png'']"
  by (intro conjI; code_simp)

text \<open>
  Claim C5. A failed fetch does not stop the run. \<open>download_file\<close> raises nothing: on a
  failed attempt it returns \<open>False\<close> and appends the URL with the reason to
  \<open>failed_urls\<close>. When the extraction of the links has returned, \<open>_process_external_css\<close>
  returns in every world, with every extracted link rewritten to its local path and
  every extracted URL attempted; and \<open>get_failed_urls\<close> then lists exactly the failed
  attempts of the record, each with its URL and reason, in order.
\<close>

theorem fetch_failure_is_isolated:
  assumes "log_consistent d"
      and "extract_external_css ip base dmn doc = Inr refs"
  shows "(url \<notin> downloaded_urls d \<and> failure_reason (w (length (attempts d)) url p) = Some e
            \<longrightarrow> fst (download_file w url p d) = False
              \<and> get_failed_urls (snd (download_file w url p d)) = failed_urls d @ [(url, e)])
       \<and> (\<exists>doc' d'. process_external_css ip w base dmn (doc, d) = Inr (doc', d')
            \<and> (\<forall>k < length refs.
                  \<exists>rel. relative_str (assigned ''css'' ''.css'' k
                            (attr_of (doc ! snd (refs ! k)) ''href'')) = Inr rel
                    \<and> attr_of (doc' ! snd (refs ! k)) ''href'' = rel)
            \<and> (\<forall>r \<in> set refs. fst r \<in> fst ` set (attempts d'))
            \<and> get_failed_urls d' = failures (attempts d'))"
proof (intro conjI impI)
  assume a: "url \<notin> downloaded_urls d \<and> failure_reason (w (length (attempts d)) url p) = Some e"
  then show "fst (download_file w url p d) = False"
    by (cases "w (length (attempts d)) url p") (auto simp: download_file_def Let_def)
  from a show "get_failed_urls (snd (download_file w url p d)) = failed_urls d @ [(url, e)]"
    by (cases "w (length (attempts d)) url p")
       (auto simp: download_file_def get_failed_urls_def Let_def)
next
  from css_pass_runs[OF assms(2), of w d]
  obtain doc' d' where
    run: "process_external_css ip w base dmn (doc, d) = Inr (doc', d')"
    and each: "\<forall>k < length refs.
                  \<exists>rel. relative_str (assigned ''css'' ''.css'' k
                            (attr_of (doc ! snd (refs ! k)) ''href'')) = Inr rel
                    \<and> attr_of (doc' ! snd (refs ! k)) ''href'' = rel"
    by blast
  from css_pass_log[OF run assms(1,2)]
  have "log_consistent d'" "\<forall>r \<in> set refs. fst r \<in> fst ` set (attempts d')" by blast+
  then show "\<exists>doc' d'. process_external_css ip w base dmn (doc, d) = Inr (doc', d')
            \<and> (\<forall>k < length refs.
                  \<exists>rel. relative_str (assigned ''css'' ''.css'' k
                            (attr_of (doc ! snd (refs ! k)) ''href'')) = Inr rel
                    \<and> attr_of (doc' ! snd (refs ! k)) ''href'' = rel)
            \<and> (\<forall>r \<in> set refs. fst r \<in> fst ` set (attempts d'))
            \<and> get_failed_urls d' = failures (attempts d')"
    using run each by (auto simp: log_consistent_def get_failed_urls_def)
qed

theorem fetch_failure_is_isolated_witness:
  "run_doc (process_external_css no_ipv6 second_fails ''https://example.com'' ''example.com''
      ([stylesheet_link ''/a.css'', stylesheet_link ''/b.css'', stylesheet_link ''/c.css''],
       new_downloader))
     = Inr [stylesheet_link ''css/a.css'', stylesheet_link ''css/b.css'',
            stylesheet_link ''css/c.css'']
   \<and> run_failed (process_external_css no_ipv6 second_fails ''https://example.com'' ''example.com''
      ([stylesheet_link ''/a.css'', stylesheet_link ''/b.css'', stylesheet_link ''/c.css''],
       new_downloader))
     = Inr [(''https://example.com/b.css'', ''503 Server Error'')]
   \<and> run_fetches (process_external_css no_ipv6 second_fails ''https://example.com'' ''example.com''
      ([stylesheet_link ''/a.css'', stylesheet_link ''/b.css'', stylesheet_link ''/c.css''],
       new_downloader))
     = Inr [''https://example.com/a.css'', ''https://example.com/b.css'',
            ''https://example.com/c.css'']"
proof -
  let ?doc = "[stylesheet_link ''/a.css'', stylesheet_link ''/b.css'', stylesheet_link ''/c.css'']"
  let ?run = "process_external_css no_ipv6 second_fails ''https://example.com'' ''example.com''
      (?doc, new_downloader)"
  have ex: "extract_external_css no_ipv6 ''https://example.com'' ''example.com'' ?doc
      = Inr [(''https://example.com/a.css'', 0), (''https://example.com/b.css'', 1),
             (''https://example.com/c.css'', 2)]"
    by code_simp
  from fetch_failure_is_isolated[OF log_consistent_new ex, of _ second_fails]
  obtain doc' d' where run: "?run = Inr (doc', d')"
    and "get_failed_urls d' = failures (attempts d')"
    by blast
  have a: "run_doc ?run = Inr [stylesheet_link ''css/a.css'', stylesheet_link ''css/b.css'',
            stylesheet_link ''css/c.css'']"
    by code_simp
  have b: "run_failed ?run = Inr [(''https://example.com/b.css'', ''503 Server Error'')]"
    by code_simp
  have c: "run_fetches ?run = Inr [''https://example.com/a.css'', ''https://example.com/b.css'',
            ''https://example.com/c.css'']"
    by code_simp
  from run a b c show ?thesis by blast
qed

text \<open>
  Claim C6. \<open>is_same_domain(url, domain)\<close> is \<open>True\<close> exactly when \<open>urlparse(url)\<close> returns
  and the netloc of its result is the string \<open>domain\<close> or is empty. The netloc of
  \<open>https://h/...\<close> is the string \<open>h\<close> itself, character by character, so nothing about
  the host is normalised: neither letter case nor a subdomain. In particular
  \<open>is_same_domain("https://other.com/x.png", "example.com")\<close> is \<open>False\<close> and
  \<open>is_same_domain("/x.png", "example.com")\<close> is \<open>True\<close>.
\<close>

theorem is_same_domain_exact:
  "(is_same_domain ip url dmn
      \<longleftrightarrow> (\<exists>p. urlparse ip url [] = Inr p \<and> (netloc p = dmn \<or> netloc p = [])))
   \<and> (list_all plain_host_chr h
        \<longrightarrow> is_same_domain ip (''https://'' @ h @ ''/'' @ r) dmn = (h = dmn \<or> h = []))
   \<and> \<not> is_same_domain ip ''https://other.com/x.png'' ''example.com''
   \<and> is_same_domain ip ''/x.png'' ''example.com''
   \<and> \<not> is_same_domain ip ''https://cdn.example.com/x.png'' ''example.com''
   \<and> \<not> is_same_domain ip ''https://www.example.com/x.png'' ''example.com''"
proof (intro conjI impI)
  show "is_same_domain ip url dmn
      \<longleftrightarrow> (\<exists>p. urlparse ip url [] = Inr p \<and> (netloc p = dmn \<or> netloc p = []))"
    by (cases "urlparse ip url []") (auto simp: is_same_domain_def)
  show "is_same_domain ip (''https://'' @ h @ ''/'' @ r) dmn = (h = dmn \<or> h = [])"
    if "list_all plain_host_chr h"
    using that by (rule same_domain_https)
  have p: "list_all plain_host_chr ''other.com''" "list_all plain_host_chr ''cdn.example.com''"
    "list_all plain_host_chr ''www.example.com''"
    by (simp_all add: plain_host_chr_def netloc_delim_def unsafe_byte_def)
  show "\<not> is_same_domain ip ''https://other.com/x.png'' ''example.com''"
    using same_domain_https[OF p(1), of ip "''x.png''" "''example.com''"] by simp
  show "\<not> is_same_domain ip ''https://cdn.example.com/x.png'' ''example.com''"
    using same_domain_https[OF p(2), of ip "''x.png''" "''example.com''"] by simp
  show "\<not> is_same_domain ip ''https://www.example.com/x.png'' ''example.com''"
    using same_domain_https[OF p(3), of ip "''x.png''" "''example.com''"] by simp
  show "is_same_domain ip ''/x.png'' ''example.com''"
    by (simp add: is_same_domain_def urlparse_def urlsplit_def split_scheme_def before_chr_def
        after_chr_def lstrip_where_def rstrip_where_def c0_or_space_def unsafe_byte_def
        netloc_raises_def uses_params_def Let_def)
qed

theorem is_same_domain_exact_witness:
  "\<not> is_same_domain no_ipv6 ''https://EXAMPLE.com/x.png'' ''example.com''
   \<and> is_same_domain no_ipv6 ''https://example.com/x.png'' ''example.com''
   \<and> \<not> is_same_domain no_ipv6 ''https://example.com:443/x.png'' ''example.com''"
proof -
  have p: "list_all plain_host_chr ''EXAMPLE.com''" "list_all plain_host_chr ''example.com''"
    "list_all plain_host_chr ''example.com:443''"
    by (simp_all add: plain_host_chr_def netloc_delim_def unsafe_byte_def)
  from is_same_domain_exact[where h = "''EXAMPLE.com''" and r = "''x.png''"
      and dmn = "''example.com''" and ip = no_ipv6, THEN conjunct2, THEN conjunct1] p(1)
  have a: "\<not> is_same_domain no_ipv6 ''https://EXAMPLE.com/x.png'' ''example.com''" by simp
  from is_same_domain_exact[where h = "''example.com''" and r = "''x.png''"
      and dmn = "''example.com''" and ip = no_ipv6, THEN conjunct2, THEN conjunct1] p(2)
  have b: "is_same_domain no_ipv6 ''https://example.com/x.png'' ''example.com''" by simp
  from is_same_domain_exact[where h = "''example.com:443''" and r = "''x.png''"
      and dmn = "''example.com''" and ip = no_ipv6, THEN conjunct2, THEN conjunct1] p(3)
  have c: "\<not> is_same_domain no_ipv6 ''https://example.com:443/x.png'' ''example.com''" by simp
  from a b c show ?thesis by blast
qed

text \<open>
  Claim C7. A font URL that two stylesheets name is fetched once, but only the first
  stylesheet is rewritten: the replacement of the URL in the text stands inside the
  branch for a URL that is not yet in \<open>fonts_found\<close>, so the second stylesheet is
  written back with the remote URL. A stylesheet that names the font by a relative URL
  is not rewritten either, because the absolute URL is what is searched in its text.
\<close>

theorem second_stylesheet_keeps_remote_font:
  "fst (process_fonts no_ipv6 serves_fonts ''https://example.com'' ''example.com''
      [(''a.css'', Some ''@font-face{src:url(https://example.com/f.woff)}''),
       (''b.css'', Some ''@font-face{src:url(https://example.com/f.woff)}'')]
      new_downloader)
   = [(''a.css'', Some ''@font-face{src:url(../fonts/font_1.woff)}''),
      (''b.css'', Some ''@font-face{src:url(https://example.com/f.woff)}'')]
   \<and> fetches (snd (process_fonts no_ipv6 serves_fonts ''https://example.com'' ''example.com''
      [(''a.css'', Some ''@font-face{src:url(https://example.com/f.woff)}''),
       (''b.css'', Some ''@font-face{src:url(https://example.com/f.woff)}'')]
      new_downloader))
     = [''https://example.com/f.woff'']
   \<and> fst (process_fonts no_ipv6 serves_fonts ''https://example.com'' ''example.com''
      [(''c.css'', Some ''@font-face{src:url(f.woff)}'')] new_downloader)
     = [(''c.css'', Some ''@font-face{src:url(f.woff)}'')]
   \<and> fetches (snd (process_fonts no_ipv6 serves_fonts ''https://example.com'' ''example.com''
      [(''c.css'', Some ''@font-face{src:url(f.woff)}'')] new_downloader))
     = [''https://example.com/f.woff'']"
  by (intro conjI; code_simp)

text \<open>
  Claim C8 as stated does not hold: without any setting, \<open>_rewrite_paths\<close> removes a
  foreign stylesheet link and a foreign script and replaces the source of a foreign
  image.
\<close>

theorem foreign_references_are_changed:
  "rewrite_paths no_ipv6 ''example.com''
     [stylesheet_link ''https://cdn.other.com/lib.css'',
      script_src ''https://cdn.other.com/lib.js'',
      img_src ''https://cdn.other.com/p.png'']
   = [img_src ''images/placeholder.png'']"
  by code_simp

text \<open>
  Claim C8, amended. \<open>_rewrite_paths\<close> has no policy setting and treats every element
  by itself: a stylesheet link or a script whose URL starts with \<open>http\<close> and is not of
  the site's domain is removed, an image with such a URL gets the source
  \<open>images/placeholder.png\<close>, and every other element (of the site's domain, or foreign
  with a URL that does not start with \<open>http\<close>) stays as it is, in its place.
\<close>

theorem rewrite_paths_drops_foreign_http:
  "rewrite_paths ip dmn doc
   = concat (map (\<lambda>e.
        if is_stylesheet_link e \<and> foreign_http ip dmn (attr_of e ''href'') then []
        else if is_script_src e \<and> foreign_http ip dmn (attr_of e ''src'') then []
        else if is_img_src e \<and> foreign_http ip dmn (attr_of e ''src'')
             then [set_attr ''src'' ''images/placeholder.png'' e]
        else [e]) doc)"
proof (induction doc)
  case Nil
  show ?case by (simp add: rewrite_paths_def)
next
  case (Cons e doc)
  have tags: "is_stylesheet_link e \<Longrightarrow> \<not> is_script_src e \<and> \<not> is_img_src e"
    "is_script_src e \<Longrightarrow> \<not> is_img_src e"
    by (auto simp: is_stylesheet_link_def is_script_src_def is_img_src_def)
  from Cons tags show ?case
    by (auto simp: rewrite_paths_def Let_def)
qed

theorem rewrite_paths_drops_foreign_http_witness:
  "rewrite_paths no_ipv6 ''example.com''
     [stylesheet_link ''css/a.css'', stylesheet_link ''https://cdn.other.com/lib.css'',
      img_src ''//cdn.other.com/q.png'', img_src ''https://example.com/r.png'']
   = [stylesheet_link ''css/a.css'', img_src ''//cdn.other.com/q.png'',
      img_src ''https://example.com/r.png'']"
proof -
  let ?doc = "[stylesheet_link ''css/a.css'', stylesheet_link ''https://cdn.other.com/lib.css'',
      img_src ''//cdn.other.com/q.png'', img_src ''https://example.com/r.png'']"
  have "concat (map (\<lambda>e.
        if is_stylesheet_link e \<and> foreign_http no_ipv6 ''example.com'' (attr_of e ''href'') then []
        else if is_script_src e \<and> foreign_http no_ipv6 ''example.com'' (attr_of e ''src'') then []
        else if is_img_src e \<and> foreign_http no_ipv6 ''example.com'' (attr_of e ''src'')
             then [set_attr ''src'' ''images/placeholder.png'' e]
        else [e]) ?doc)
    = [stylesheet_link ''css/a.css'', img_src ''//cdn.other.com/q.png'',
      img_src ''https://example.com/r.png'']"
    by code_simp
  with rewrite_paths_drops_foreign_http[of no_ipv6 "''example.com''" ?doc]
  show ?thesis by simp
qed

text \<open>
  Claim C9. The guard of the server refuses a URL with one of the schemes \<open>data:\<close>,
  \<open>javascript:\<close>, \<open>mailto:\<close>, \<open>tel:\<close>. The parser and the normalizer of \<open>core\<close> have no
  such test: a \<open>data:\<close> URL has an empty netloc, so \<open>is_same_domain\<close> accepts it,
  \<open>extract_images\<close> returns it for an \<open>img\<close> and for a \<open>url(...)\<close> of a \<open>style\<close> attribute,
  and \<open>_process_images\<close> passes it to \<open>download_file\<close>, which requests it and records the
  failure; the reference in the document is replaced by a local path.
\<close>

theorem data_url_is_requested:
  "should_download no_ipv6 ''example.com'' {} ''data:image/png;base64,AAAA'' = False
   \<and> is_same_domain no_ipv6 ''data:image/png;base64,AAAA'' ''example.com''
   \<and> extract_images no_ipv6 ''https://example.com'' ''example.com''
        [img_src ''data:image/png;base64,AAAA'',
         styled ''div'' ''background:url(data:image/gif;base64,BBBB)'']
     = Inr [(''data:image/png;base64,AAAA'', 0), (''data:image/gif;base64,BBBB'', 1)]
   \<and> run_fetches (process_images no_ipv6 always_fails ''https://example.com'' ''example.com''
        ([img_src ''data:image/png;base64,AAAA'',
          styled ''div'' ''background:url(data:image/gif;base64,BBBB)''], new_downloader))
     = Inr [''data:image/png;base64,AAAA'', ''data:image/gif;base64,BBBB'']
   \<and> run_failed (process_images no_ipv6 always_fails ''https://example.com'' ''example.com''
        ([img_src ''data:image/png;base64,AAAA'',
          styled ''div'' ''background:url(data:image/gif;base64,BBBB)''], new_downloader))
     = Inr [(''data:image/png;base64,AAAA'', ''503 Server Error''),
            (''data:image/gif;base64,BBBB'', ''503 Server Error'')]
   \<and> run_doc (process_images no_ipv6 always_fails ''https://example.com'' ''example.com''
        ([img_src ''data:image/png;base64,AAAA'',
          styled ''div'' ''background:url(data:image/gif;base64,BBBB)''], new_downloader))
     = Inr [img_src ''images/image_1.jpg'',
            styled ''div'' ''background:url(images/image_2.jpg)'']"
  by (intro conjI; code_simp)

text \<open>
  Claim C10. When the attempt for a URL fails, \<open>download_file\<close> returns \<open>False\<close>, appends
  the URL with the reason to \<open>failed_urls\<close> and leaves \<open>downloaded_urls\<close> as it was; a
  later call for the same URL is therefore not skipped: it makes a new attempt, in any
  world and for any target path. The skip of \<open>download_file\<close> covers only the URLs whose
  fetch succeeded.
\<close>

theorem failed_fetch_not_deduplicated:
  assumes "url \<notin> downloaded_urls d"
      and "failure_reason (w (length (attempts d)) url p) = Some e"
  shows "fst (download_file w url p d) = False
       \<and> failed_urls (snd (download_file w url p d)) = failed_urls d @ [(url, e)]
       \<and> downloaded_urls (snd (download_file w url p d)) = downloaded_urls d
       \<and> attempts (snd (download_file w' url p' (snd (download_file w url p d))))
           = attempts d @ [(url, p, w (length (attempts d)) url p),
                           (url, p', w' (Suc (length (attempts d))) url p')]"
  using assms
  by (cases "w (length (attempts d)) url p")
     (auto simp: download_file_def Let_def split: attempt.splits)

theorem failed_fetch_not_deduplicated_witness:
  "fst (download_file always_fails ''https://example.com/a.css'' (Under [''css'', ''a.css''])
          new_downloader) = False
   \<and> failed_urls (snd (download_file always_fails ''https://example.com/a.css''
          (Under [''css'', ''a.css'']) new_downloader))
       = [(''https://example.com/a.css'', ''503 Server Error'')]
   \<and> fetches (snd (download_file always_fails ''https://example.com/a.css''
          (Under [''css'', ''a.css''])
          (snd (download_file always_fails ''https://example.com/a.css''
             (Under [''css'', ''a.css'']) new_downloader))))
       = [''https://example.com/a.css'', ''https://example.com/a.css'']"
  using failed_fetch_not_deduplicated
    [of "''https://example.com/a.css''" new_downloader always_fails "Under [''css'', ''a.css'']"
        "''503 Server Error''" always_fails "Under [''css'', ''a.css'']"]
  by (simp add: new_downloader_def always_fails_def fetches_def)

end
